theory Spec2Isabelle
  imports Main "HOL-Library.Sublist"
begin

section \<open>Python values used by \<open>system_log.py\<close>\<close>

text \<open>
  Strings are byte strings (\<open>char list\<close>); every file name, date and message the module
  builds itself is ASCII. An exception is a value: an operation returns an \<open>outcome\<close>
  together with the state it leaves behind, because a Python function that raises keeps
  the mutations it made before the \<open>raise\<close>.
\<close>

datatype error =
    AttributeError
  | FileNotFoundError string
  | PermissionError string
  | ValueError
  | BadRequestKeyError string
  | ConnectionError string

datatype 'a outcome = Returns 'a | Raises error

subsection \<open>\<open>str.replace\<close>, \<open>str.split("_")[-1]\<close>, \<open>str(int)\<close>\<close>

text \<open>
  \<open>s.replace(old, new)\<close>: every non-overlapping occurrence of \<open>old\<close>, scanning from the
  left, is replaced. With \<open>old\<close> empty Python inserts \<open>new\<close> before every character and at
  the end.
\<close>

function replace_scan :: "string \<Rightarrow> string \<Rightarrow> string \<Rightarrow> string" where
  "replace_scan old new [] = []"
| "replace_scan old new (c # cs) =
     (if old \<noteq> [] \<and> prefix old (c # cs)
      then new @ replace_scan old new (drop (length old) (c # cs))
      else c # replace_scan old new cs)"
  by pat_completeness auto
termination
  by (relation "measure (\<lambda>(old, new, s). length s)") (auto simp: neq_Nil_conv)

definition py_replace :: "string \<Rightarrow> string \<Rightarrow> string \<Rightarrow> string" where
  "py_replace s old new =
     (if old = [] then new @ concat (map (\<lambda>c. c # new) s) else replace_scan old new s)"

text \<open>\<open>s.split("_")[-1]\<close>: what follows the last underscore, all of \<open>s\<close> when there is none.\<close>

definition last_segment :: "string \<Rightarrow> string" where
  "last_segment s = rev (takeWhile (\<lambda>c. c \<noteq> CHR ''_'') (rev s))"

text \<open>\<open>str(i)\<close> (what an f-string does to an \<open>int\<close>): decimal, with a minus sign.\<close>

definition digit_char :: "nat \<Rightarrow> char" where
  "digit_char d = char_of (of_char CHR ''0'' + d)"

fun str_nat :: "nat \<Rightarrow> string" where
  "str_nat n = (if n < 10 then [digit_char n] else str_nat (n div 10) @ [digit_char (n mod 10)])"

declare str_nat.simps [simp del]

definition str_int :: "int \<Rightarrow> string" where
  "str_int i = (if i < 0 then CHR ''-'' # str_nat (nat (- i)) else str_nat (nat i))"

section \<open>The file system and the clock\<close>

text \<open>
  A flat name space of regular files, keyed by absolute path, each holding its bytes.
  \<open>denied\<close> is the set of paths on which the operating system refuses to open a file
  for appending or to rename (permissions, a read-only mount): it is how an I/O failure
  of \<open>open\<close> and \<open>os.rename\<close> enters the model. \<open>cwd\<close> is the working directory of the
  process, which the module never changes.
\<close>

record filesys =
  files :: "string \<rightharpoonup> string"
  denied :: "string set"
  cwd :: string

text \<open>
  \<open>os.path.abspath\<close>, for the names this module passes (no \<open>.\<close> or \<open>..\<close> component, so
  the normalisation step has nothing to do): an absolute path is kept, a relative one is
  joined to the working directory.
\<close>

definition abspath :: "filesys \<Rightarrow> string \<Rightarrow> string" where
  "abspath fs p =
     (if p \<noteq> [] \<and> hd p = CHR ''/'' then p
      else if cwd fs \<noteq> [] \<and> last (cwd fs) = CHR ''/'' then cwd fs @ p
      else cwd fs @ ''/'' @ p)"

definition os_path_exists :: "filesys \<Rightarrow> string \<Rightarrow> bool" where
  "os_path_exists fs p = (files fs (abspath fs p) \<noteq> None)"

definition os_path_getsize :: "filesys \<Rightarrow> string \<Rightarrow> nat outcome" where
  "os_path_getsize fs p =
     (case files fs (abspath fs p) of
        None \<Rightarrow> Raises (FileNotFoundError p)
      | Some content \<Rightarrow> Returns (length content))"

text \<open>\<open>os.rename\<close> with POSIX semantics: an existing destination is replaced silently.\<close>

definition os_rename :: "filesys \<Rightarrow> string \<Rightarrow> string \<Rightarrow> unit outcome \<times> filesys" where
  "os_rename fs src dst =
     (let s = abspath fs src; d = abspath fs dst in
      case files fs s of
        None \<Rightarrow> (Raises (FileNotFoundError src), fs)
      | Some content \<Rightarrow>
          if s \<in> denied fs \<or> d \<in> denied fs then (Raises (PermissionError src), fs)
          else (Returns (), fs\<lparr>files := ((files fs)(s := None))(d \<mapsto> content)\<rparr>))"

text \<open>
  An open text stream in append mode: the path it was opened on and the bytes written
  but not yet flushed. The handler closes its stream before it renames anything, so the
  path the stream was opened on is the path of the file it writes to; if that file has
  been unlinked by someone else the flushed bytes reach no named file. Writing to an open
  stream, flushing it and closing it always succeed here: a full disk or a failing device
  is outside this file system, whose only refusals are those of \<open>denied\<close>.
\<close>

record ostream =
  spath :: string
  sbuf :: string

definition open_append :: "filesys \<Rightarrow> string \<Rightarrow> ostream outcome \<times> filesys" where
  "open_append fs p =
     (let a = abspath fs p in
      if a \<in> denied fs then (Raises (PermissionError p), fs)
      else (Returns \<lparr>spath = a, sbuf = []\<rparr>,
            case files fs a of None \<Rightarrow> fs\<lparr>files := (files fs)(a \<mapsto> [])\<rparr> | Some _ \<Rightarrow> fs))"

definition stream_write :: "ostream \<Rightarrow> string \<Rightarrow> ostream" where
  "stream_write st s = st\<lparr>sbuf := sbuf st @ s\<rparr>"

definition stream_flush :: "ostream \<Rightarrow> filesys \<Rightarrow> ostream \<times> filesys" where
  "stream_flush st fs =
     (st\<lparr>sbuf := []\<rparr>,
      case files fs (spath st) of
        None \<Rightarrow> fs
      | Some content \<Rightarrow> fs\<lparr>files := (files fs)(spath st \<mapsto> content @ sbuf st)\<rparr>)"

text \<open>\<open>stream.close()\<close> flushes; the stream value is dropped by the caller.\<close>

definition stream_close :: "ostream \<Rightarrow> filesys \<Rightarrow> filesys" where
  "stream_close st fs = snd (stream_flush st fs)"

section \<open>\<open>CustomRotatingFileHandler\<close>\<close>

text \<open>
  A log record as the handler sees it: the fields the format string
  \<open>%(asctime)s - %(levelname)s - %(message)s\<close> reads.
\<close>

record log_record =
  asctime :: string
  levelname :: string
  msg :: string

definition std_format :: "log_record \<Rightarrow> string" where
  "std_format r = asctime r @ '' - '' @ levelname r @ '' - '' @ msg r"

text \<open>
  The handler object. \<open>base_filename\<close> is the attribute the subclass introduces;
  \<open>baseFilename\<close> is the attribute of \<open>logging.FileHandler\<close>, the absolute path that
  \<open>_open\<close> opens. \<open>formatter\<close> is \<open>None\<close> until \<open>setFormatter\<close> is called, and the library
  then formats a record as its bare message.
\<close>

record handler =
  current_date :: string
  base_filename :: string
  baseFilename :: string
  maxBytes :: int
  backupCount :: int
  stream :: "ostream option"
  formatter :: "(log_record \<Rightarrow> string) option"

type_synonym hstate = "handler \<times> filesys"

text \<open>\<open>FileHandler._open\<close>: \<open>open(self.baseFilename, 'a')\<close>.\<close>

definition handler_open :: "hstate \<Rightarrow> ostream outcome \<times> filesys" where
  "handler_open s = open_append (snd s) (baseFilename (fst s))"

text \<open>
  \<open>__init__(filename, maxBytes, backupCount)\<close>, with \<open>today\<close> the value of
  \<open>datetime.now().strftime("%Y-%m-%d")\<close>. The library constructor stores the absolute
  path and opens the stream at once (\<open>delay=False\<close>).
\<close>

definition handler_init :: "string \<Rightarrow> string \<Rightarrow> int \<Rightarrow> int \<Rightarrow> filesys \<Rightarrow> handler outcome \<times> filesys" where
  "handler_init today filename max_bytes backup_count fs =
     (let bf = py_replace filename ''.txt'' (''_'' @ today @ ''.txt'');
          h = \<lparr>current_date = today, base_filename = bf, baseFilename = abspath fs bf,
               maxBytes = max_bytes, backupCount = backup_count, stream = None,
               formatter = None\<rparr>
      in case handler_open (h, fs) of
           (Raises e, fs') \<Rightarrow> (Raises e, fs')
         | (Returns st, fs') \<Rightarrow> (Returns (h\<lparr>stream := Some st\<rparr>), fs'))"

text \<open>\<open>shouldRollover(record)\<close>, lines 30-41.\<close>

definition shouldRollover :: "string \<Rightarrow> log_record \<Rightarrow> hstate \<Rightarrow> bool outcome \<times> hstate" where
  "shouldRollover today r s =
     (let h = fst s; fs = snd s in
      case stream h of
        None \<Rightarrow> (Raises AttributeError, h, fs)
      | Some st \<Rightarrow>
          (let (st', fs1) = stream_flush st fs; h1 = h\<lparr>stream := Some st'\<rparr> in
           case os_path_getsize fs1 (baseFilename h1) of
             Raises e \<Rightarrow> (Raises e, h1, fs1)
           | Returns n \<Rightarrow>
               if maxBytes h1 \<le> int n then (Returns True, h1, fs1)
               else if today \<noteq> current_date h1
               then (Returns True,
                     h1\<lparr>current_date := today,
                        base_filename := py_replace (baseFilename h1)
                                           (last_segment (baseFilename h1)) (today @ ''.txt'')\<rparr>,
                     fs1)
               else (Returns False, h1, fs1)))"

text \<open>
  The loop of lines 56-60 over \<open>range(backupCount - 1, 0, -1)\<close>; the names are relative
  to the working directory and built from the literal prefix \<open>system_logs_\<close>.
\<close>

definition backup_name :: "int \<Rightarrow> string \<Rightarrow> string" where
  "backup_name i d = ''system_logs_'' @ str_int i @ ''_'' @ d @ ''.txt''"

fun shift_backups :: "string \<Rightarrow> int list \<Rightarrow> filesys \<Rightarrow> unit outcome \<times> filesys" where
  "shift_backups d [] fs = (Returns (), fs)"
| "shift_backups d (i # js) fs =
     (let old_file = backup_name i d; new_file = backup_name (i + 1) d in
      if os_path_exists fs old_file
      then (case os_rename fs old_file new_file of
              (Raises e, fs') \<Rightarrow> (Raises e, fs')
            | (Returns u, fs') \<Rightarrow> shift_backups d js fs')
      else shift_backups d js fs)"

definition py_range_down :: "int \<Rightarrow> int list" where
  "py_range_down n = rev [1..n - 1]"

text \<open>\<open>doRollover()\<close>, lines 44-68.\<close>

definition doRollover :: "string \<Rightarrow> hstate \<Rightarrow> unit outcome \<times> hstate" where
  "doRollover today s =
     (let h = fst s; fs = snd s;
          fs1 = (case stream h of None \<Rightarrow> fs | Some st \<Rightarrow> stream_close st fs);
          h1 = h\<lparr>stream := None\<rparr>;
          h2 = (if today \<noteq> current_date h1
                then h1\<lparr>current_date := today,
                        base_filename := py_replace (baseFilename h1)
                                           (last_segment (baseFilename h1)) (today @ ''.txt'')\<rparr>
                else h1)
      in case shift_backups (current_date h2) (py_range_down (backupCount h2)) fs1 of
           (Raises e, fs2) \<Rightarrow> (Raises e, h2, fs2)
         | (Returns u, fs2) \<Rightarrow>
             (case (if os_path_exists fs2 (base_filename h2)
                    then os_rename fs2 (base_filename h2) (backup_name 1 (current_date h2))
                    else (Returns (), fs2)) of
                (Raises e, fs3) \<Rightarrow> (Raises e, h2, fs3)
              | (Returns u, fs3) \<Rightarrow>
                  (case handler_open (h2, fs3) of
                     (Raises e, fs4) \<Rightarrow> (Raises e, h2, fs4)
                   | (Returns st, fs4) \<Rightarrow> (Returns (), h2\<lparr>stream := Some st\<rparr>, fs4))))"

text \<open>
  The inherited \<open>emit\<close> that \<open>super().emit(record)\<close> reaches. \<open>StreamHandler.emit\<close> formats
  the record, writes it with the terminator \<open>\n\<close> and flushes; \<open>FileHandler.emit\<close> reopens
  a missing stream first; \<open>BaseRotatingHandler.emit\<close> runs the rollover check of the
  object (the overriding \<open>shouldRollover\<close> and \<open>doRollover\<close>) once more and wraps all of it
  in \<open>try ... except Exception: self.handleError(record)\<close>, which reports on standard
  error and returns.
\<close>

definition StreamHandler_emit :: "log_record \<Rightarrow> hstate \<Rightarrow> unit outcome \<times> hstate" where
  "StreamHandler_emit r s =
     (let h = fst s; fs = snd s in
      case stream h of
        None \<Rightarrow> (Returns (), h, fs)
      | Some st \<Rightarrow>
          (let line = (case formatter h of None \<Rightarrow> msg r | Some f \<Rightarrow> f r) @ [CHR 0x0A];
               (st', fs') = stream_flush (stream_write st line) fs
           in (Returns (), h\<lparr>stream := Some st'\<rparr>, fs')))"

definition FileHandler_emit :: "log_record \<Rightarrow> hstate \<Rightarrow> unit outcome \<times> hstate" where
  "FileHandler_emit r s =
     (let h = fst s; fs = snd s in
      case stream h of
        Some st \<Rightarrow> StreamHandler_emit r (h, fs)
      | None \<Rightarrow>
          (case handler_open (h, fs) of
             (Raises e, fs') \<Rightarrow> (Raises e, h, fs')
           | (Returns st, fs') \<Rightarrow> StreamHandler_emit r (h\<lparr>stream := Some st\<rparr>, fs')))"

definition handleError :: "unit outcome \<times> hstate \<Rightarrow> unit outcome \<times> hstate" where
  "handleError res = (case res of (Raises e, s) \<Rightarrow> (Returns (), s) | (Returns u, s) \<Rightarrow> (Returns u, s))"

definition BaseRotatingHandler_emit :: "string \<Rightarrow> log_record \<Rightarrow> hstate \<Rightarrow> unit outcome \<times> hstate" where
  "BaseRotatingHandler_emit today r s =
     handleError
       (case shouldRollover today r s of
          (Raises e, s1) \<Rightarrow> (Raises e, s1)
        | (Returns b, s1) \<Rightarrow>
            (case (if b then doRollover today s1 else (Returns (), s1)) of
               (Raises e, s2) \<Rightarrow> (Raises e, s2)
             | (Returns u, s2) \<Rightarrow> FileHandler_emit r s2))"

text \<open>
  \<open>emit(record)\<close>, lines 70-73. One call reads the clock up to four times within a few
  microseconds; the model gives it one date.
\<close>

definition emit :: "string \<Rightarrow> log_record \<Rightarrow> hstate \<Rightarrow> unit outcome \<times> hstate" where
  "emit today r s =
     (case shouldRollover today r s of
        (Raises e, s1) \<Rightarrow> (Raises e, s1)
      | (Returns b, s1) \<Rightarrow>
          (case (if b then doRollover today s1 else (Returns (), s1)) of
             (Raises e, s2) \<Rightarrow> (Raises e, s2)
           | (Returns u, s2) \<Rightarrow> BaseRotatingHandler_emit today r s2))"

section \<open>The logger and its configuration\<close>

text \<open>
  What the operations read from their environment at a call: the local date
  (\<open>datetime.now().strftime("%Y-%m-%d")\<close>), the time stamp the formatter prints, and the
  clock of the Redis server in seconds.
\<close>

record clock =
  c_date :: string
  c_asctime :: string
  c_now :: int

text \<open>
  A stream of the store: the list and the absolute time at which the key expires, if an
  expiry is set. \<open>redis_fault\<close> holds the text of the connection error that every client
  call raises while the server cannot be reached.
\<close>

record rentry =
  items :: "string list"
  expire_at :: "int option"

type_synonym rstore = "string \<rightharpoonup> rentry"

text \<open>
  The module's globals: \<open>logger.handlers\<close> of the root logger, \<open>local_max_bytes\<close>,
  \<open>local_backup_count\<close>, and the two external collaborators.
\<close>

record world =
  fsys :: filesys
  handlers :: "handler list"
  redis :: rstore
  redis_fault :: "string option"
  local_max_bytes :: int
  local_backup_count :: int

text \<open>
  \<open>Logger.callHandlers\<close>: each handler's \<open>emit\<close> in turn; an exception leaves the loop.
  With no handler installed the library's handler of last resort ignores a record below
  \<open>WARNING\<close>.
\<close>

fun call_handlers :: "string \<Rightarrow> log_record \<Rightarrow> handler list \<Rightarrow> filesys \<Rightarrow>
    unit outcome \<times> handler list \<times> filesys" where
  "call_handlers today r [] fs = (Returns (), [], fs)"
| "call_handlers today r (h # hs) fs =
     (case emit today r (h, fs) of
        (Raises e, h', fs') \<Rightarrow> (Raises e, h' # hs, fs')
      | (Returns u, h', fs') \<Rightarrow>
          (case call_handlers today r hs fs' of (out, hs', fs'') \<Rightarrow> (out, h' # hs', fs'')))"

definition logger_info :: "clock \<Rightarrow> string \<Rightarrow> world \<Rightarrow> unit outcome \<times> world" where
  "logger_info clk text w =
     (case call_handlers (c_date clk)
             \<lparr>asctime = c_asctime clk, levelname = ''INFO'', msg = text\<rparr> (handlers w) (fsys w) of
        (out, hs, fs) \<Rightarrow> (out, w\<lparr>handlers := hs, fsys := fs\<rparr>))"

text \<open>\<open>configure_logging(max_bytes, backup_count)\<close>, lines 78-93.\<close>

definition configure_logging :: "clock \<Rightarrow> int \<Rightarrow> int \<Rightarrow> world \<Rightarrow> unit outcome \<times> world" where
  "configure_logging clk max_bytes backup_count w =
     (let w1 = w\<lparr>local_max_bytes := max_bytes, local_backup_count := backup_count\<rparr>;
          w2 = w1\<lparr>handlers := []\<rparr>
      in case handler_init (c_date clk) ''system_logs.txt'' max_bytes backup_count (fsys w2) of
           (Raises e, fs') \<Rightarrow> (Raises e, w2\<lparr>fsys := fs'\<rparr>)
         | (Returns h, fs') \<Rightarrow>
             (Returns (), w2\<lparr>fsys := fs', handlers := [h\<lparr>formatter := Some std_format\<rparr>]\<rparr>))"

section \<open>The Redis list commands\<close>

text \<open>A key whose expiry time has been reached is gone for every command.\<close>

definition live :: "int \<Rightarrow> string \<Rightarrow> rstore \<Rightarrow> rentry option" where
  "live now key r =
     (case r key of
        None \<Rightarrow> None
      | Some e \<Rightarrow> (case expire_at e of
                     None \<Rightarrow> Some e
                   | Some t \<Rightarrow> if t \<le> now then None else Some e))"

definition redis_rpush :: "int \<Rightarrow> string \<Rightarrow> string \<Rightarrow> rstore \<Rightarrow> rstore" where
  "redis_rpush now key v r =
     (case live now key r of
        None \<Rightarrow> r(key \<mapsto> \<lparr>items = [v], expire_at = None\<rparr>)
      | Some e \<Rightarrow> r(key \<mapsto> e\<lparr>items := items e @ [v]\<rparr>))"

text \<open>
  The index arithmetic shared by \<open>LTRIM\<close> and \<open>LRANGE\<close>: negative indices count from the
  end, the range is inclusive, and an empty range gives the empty list.
\<close>

definition list_range :: "string list \<Rightarrow> int \<Rightarrow> int \<Rightarrow> string list" where
  "list_range xs start stop =
     (let n = int (length xs);
          s0 = (if start < 0 then n + start else start);
          e0 = (if stop < 0 then n + stop else stop);
          s1 = (if s0 < 0 then 0 else s0)
      in if s1 > e0 \<or> s1 \<ge> n then []
         else (let e1 = (if e0 \<ge> n then n - 1 else e0)
               in take (nat (e1 - s1 + 1)) (drop (nat s1) xs)))"

definition redis_ltrim :: "int \<Rightarrow> string \<Rightarrow> int \<Rightarrow> int \<Rightarrow> rstore \<Rightarrow> rstore" where
  "redis_ltrim now key start stop r =
     (case live now key r of
        None \<Rightarrow> r(key := None)
      | Some e \<Rightarrow>
          (let ys = list_range (items e) start stop
           in if ys = [] then r(key := None) else r(key \<mapsto> e\<lparr>items := ys\<rparr>)))"

definition redis_lrange :: "int \<Rightarrow> string \<Rightarrow> int \<Rightarrow> int \<Rightarrow> rstore \<Rightarrow> string list" where
  "redis_lrange now key start stop r =
     (case live now key r of None \<Rightarrow> [] | Some e \<Rightarrow> list_range (items e) start stop)"

text \<open>\<open>TTL\<close>: -2 for a missing key, -1 for a key with no expiry, else the seconds left.\<close>

definition redis_ttl :: "int \<Rightarrow> string \<Rightarrow> rstore \<Rightarrow> int" where
  "redis_ttl now key r =
     (case live now key r of
        None \<Rightarrow> - 2
      | Some e \<Rightarrow> (case expire_at e of None \<Rightarrow> - 1 | Some t \<Rightarrow> t - now))"

definition redis_expire :: "int \<Rightarrow> string \<Rightarrow> int \<Rightarrow> rstore \<Rightarrow> rstore" where
  "redis_expire now key secs r =
     (case live now key r of
        None \<Rightarrow> r
      | Some e \<Rightarrow> r(key \<mapsto> e\<lparr>expire_at := Some (now + secs)\<rparr>))"

definition redis_delete :: "string \<Rightarrow> rstore \<Rightarrow> rstore" where
  "redis_delete key r = r(key := None)"

section \<open>The bounded remote log buffer\<close>

definition LOG_KEY :: string where
  "LOG_KEY = ''system_logs''"

definition upper_char :: "char \<Rightarrow> char" where
  "upper_char c =
     (if of_char CHR ''a'' \<le> (of_char c :: nat) \<and> (of_char c :: nat) \<le> of_char CHR ''z''
      then char_of ((of_char c :: nat) - 32) else c)"

definition lower_char :: "char \<Rightarrow> char" where
  "lower_char c =
     (if of_char CHR ''A'' \<le> (of_char c :: nat) \<and> (of_char c :: nat) \<le> of_char CHR ''Z''
      then char_of ((of_char c :: nat) + 32) else c)"

definition upper :: "string \<Rightarrow> string" where
  "upper s = map upper_char s"

definition capitalize :: "string \<Rightarrow> string" where
  "capitalize s = (case s of [] \<Rightarrow> [] | c # cs \<Rightarrow> upper_char c # map lower_char cs)"

text \<open>
  \<open>log_to_redis(message, source)\<close>, lines 98-112. The file logging of line 108 sits
  between the trim and the expiry: when it raises, the message has been pushed and the
  expiry is not looked at.
\<close>

definition log_to_redis :: "clock \<Rightarrow> string \<Rightarrow> string \<Rightarrow> world \<Rightarrow> unit outcome \<times> world" where
  "log_to_redis clk message source w =
     (let key = LOG_KEY @ ''_'' @ source; now = c_now clk in
      case redis_fault w of
        Some err \<Rightarrow> (Raises (ConnectionError err), w)
      | None \<Rightarrow>
          (let w1 = w\<lparr>redis := redis_rpush now key message (redis w)\<rparr>;
               w2 = w1\<lparr>redis := redis_ltrim now key (- 1000) (- 1) (redis w1)\<rparr>
           in case logger_info clk (''['' @ upper source @ ''] '' @ message) w2 of
                (Raises e, w3) \<Rightarrow> (Raises e, w3)
              | (Returns u, w3) \<Rightarrow>
                  (Returns (),
                   if redis_ttl now key (redis w3) = - 1
                   then w3\<lparr>redis := redis_expire now key (7 * 24 * 60 * 60) (redis w3)\<rparr>
                   else w3)))"

text \<open>\<open>list(dict.fromkeys(logs))\<close>: a key is inserted the first time it is met.\<close>

definition fromkeys :: "'a list \<Rightarrow> 'a list" where
  "fromkeys xs = foldl (\<lambda>acc x. if x \<in> set acc then acc else acc @ [x]) [] xs"

text \<open>
  The JSON bodies the routes return, with the HTTP status (200 unless the route gives
  another one).
\<close>

datatype response =
    Logs "string list"
  | Message bool string
  | Config int int

definition get_logs :: "int \<Rightarrow> (string \<rightharpoonup> string) \<Rightarrow> world \<Rightarrow> response \<times> nat" where
  "get_logs now args w =
     (let log_type = (case args ''type'' of None \<Rightarrow> ''listener'' | Some t \<Rightarrow> t) in
      case redis_fault w of
        Some err \<Rightarrow> (Message False (''Error fetching logs: '' @ err), 500)
      | None \<Rightarrow> (Logs (fromkeys (redis_lrange now (LOG_KEY @ ''_'' @ log_type) 0 (- 1) (redis w))), 200))"

definition clear_logs :: "(string \<rightharpoonup> string) \<Rightarrow> world \<Rightarrow> (response \<times> nat) \<times> world" where
  "clear_logs form w =
     (let log_type = (case form ''type'' of None \<Rightarrow> ''listener'' | Some t \<Rightarrow> t) in
      case redis_fault w of
        Some err \<Rightarrow> ((Message False (''Error clearing logs: '' @ err), 500), w)
      | None \<Rightarrow>
          ((Message True (capitalize log_type @ '' logs cleared successfully''), 200),
           w\<lparr>redis := redis_delete (LOG_KEY @ ''_'' @ log_type) (redis w)\<rparr>))"

section \<open>The configuration routes\<close>

text \<open>
  \<open>int(s)\<close> on a form value: surrounding white space is dropped, one sign is allowed, and
  the decimal digits may be separated by single underscores. \<open>None\<close> stands for
  \<open>ValueError\<close>.
\<close>

definition is_space :: "char \<Rightarrow> bool" where
  "is_space c = (c \<in> set [CHR 0x09, CHR 0x0A, CHR 0x0B, CHR 0x0C, CHR 0x0D,
                           CHR 0x1C, CHR 0x1D, CHR 0x1E, CHR 0x1F, CHR '' ''])"

definition strip :: "string \<Rightarrow> string" where
  "strip s = rev (dropWhile is_space (rev (dropWhile is_space s)))"

definition digit_of :: "char \<Rightarrow> nat option" where
  "digit_of c =
     (if of_char CHR ''0'' \<le> (of_char c :: nat) \<and> (of_char c :: nat) \<le> of_char CHR ''9''
      then Some ((of_char c :: nat) - of_char CHR ''0'') else None)"

fun parse_digits :: "nat \<Rightarrow> bool \<Rightarrow> string \<Rightarrow> nat option" where
  "parse_digits acc ok [] = (if ok then Some acc else None)"
| "parse_digits acc ok (c # cs) =
     (if c = CHR ''_'' then (if ok \<and> cs \<noteq> [] then parse_digits acc False cs else None)
      else (case digit_of c of
              None \<Rightarrow> None
            | Some d \<Rightarrow> parse_digits (10 * acc + d) True cs))"

definition py_int :: "string \<Rightarrow> int option" where
  "py_int s =
     (case strip s of
        [] \<Rightarrow> None
      | c # cs \<Rightarrow>
          if c = CHR ''-'' then map_option (\<lambda>n. - int n) (parse_digits 0 False cs)
          else if c = CHR ''+'' then map_option int (parse_digits 0 False cs)
          else map_option int (parse_digits 0 False (c # cs)))"

definition get_logging_config :: "world \<Rightarrow> response \<times> nat" where
  "get_logging_config w = (Config (local_max_bytes w) (local_backup_count w), 200)"

text \<open>
  \<open>update_logging_config()\<close>, lines 168-181. \<open>request.form[k]\<close> raises the framework's
  \<open>BadRequestKeyError\<close> on a missing field, which the \<open>except ValueError\<close> does not catch.
\<close>

definition form_int :: "(string \<rightharpoonup> string) \<Rightarrow> string \<Rightarrow> int outcome" where
  "form_int form k =
     (case form k of
        None \<Rightarrow> Raises (BadRequestKeyError k)
      | Some v \<Rightarrow> (case py_int v of None \<Rightarrow> Raises ValueError | Some i \<Rightarrow> Returns i))"

definition update_body :: "clock \<Rightarrow> (string \<rightharpoonup> string) \<Rightarrow> world \<Rightarrow> (response \<times> nat) outcome \<times> world" where
  "update_body clk form w =
     (case form_int form ''maxBytes'' of
        Raises e \<Rightarrow> (Raises e, w)
      | Returns mb \<Rightarrow>
          (let max_bytes = mb * 1024 * 1024 in
           case form_int form ''backupCount'' of
             Raises e \<Rightarrow> (Raises e, w)
           | Returns backup_count \<Rightarrow>
               if max_bytes \<le> 0 \<or> backup_count \<le> 0
               then (Returns (Message False ''Values must be greater than 0!'', 200), w)
               else (case configure_logging clk max_bytes backup_count w of
                       (Raises e, w') \<Rightarrow> (Raises e, w')
                     | (Returns u, w') \<Rightarrow>
                         (Returns (Message True ''Logging configuration updated successfully!'', 200),
                          w'))))"

definition update_logging_config :: "clock \<Rightarrow> (string \<rightharpoonup> string) \<Rightarrow> world \<Rightarrow> (response \<times> nat) outcome \<times> world" where
  "update_logging_config clk form w =
     (case update_body clk form w of
        (Raises ValueError, w') \<Rightarrow>
          (Returns (Message False ''Invalid input. Please enter valid numbers!'', 200), w')
      | res \<Rightarrow> res)"

section \<open>Notions used in the statements\<close>

text \<open>A run of \<open>log_to_redis\<close> calls for one source, whatever each call's outcome.\<close>

fun appends :: "string \<Rightarrow> (clock \<times> string) list \<Rightarrow> world \<Rightarrow> world" where
  "appends source [] w = w"
| "appends source (cm # rest) w = appends source rest (snd (log_to_redis (fst cm) (snd cm) source w))"

text \<open>The last \<open>n\<close> elements of a list (all of it when it is shorter).\<close>

definition last_n :: "nat \<Rightarrow> 'a list \<Rightarrow> 'a list" where
  "last_n n xs = drop (length xs - n) xs"

text \<open>The list held under the key of \<open>source\<close>, whatever its expiry.\<close>

definition stored :: "string \<Rightarrow> world \<Rightarrow> string list" where
  "stored source w = (case redis w (LOG_KEY @ ''_'' @ source) of None \<Rightarrow> [] | Some e \<Rightarrow> items e)"

text \<open>\<open>os.path.isabs\<close> on POSIX.\<close>

definition is_absolute :: "string \<Rightarrow> bool" where
  "is_absolute p = (p \<noteq> [] \<and> hd p = CHR ''/'')"

text \<open>The expiry time of the stream of \<open>source\<close> as seen at \<open>now\<close>, if one is set.\<close>

definition expiry :: "int \<Rightarrow> string \<Rightarrow> world \<Rightarrow> int option" where
  "expiry now source w =
     (case live now (LOG_KEY @ ''_'' @ source) (redis w) of None \<Rightarrow> None | Some e \<Rightarrow> expire_at e)"

text \<open>Lines 102 and 105 together.\<close>

definition push_trim :: "int \<Rightarrow> string \<Rightarrow> string \<Rightarrow> rstore \<Rightarrow> rstore" where
  "push_trim now key m r = redis_ltrim now key (- 1000) (- 1) (redis_rpush now key m r)"

text \<open>
  The read contract in the specification's words: each message once, at the position of
  its first occurrence. It is compared with \<open>fromkeys\<close> below.
\<close>

definition first_occurrences :: "'a list \<Rightarrow> 'a list" where
  "first_occurrences xs =
     map (\<lambda>i. xs ! i) (filter (\<lambda>i. xs ! i \<notin> set (take i xs)) [0..<length xs])"

text \<open>No expiry of the stream of \<open>source\<close> is due before the time \<open>d\<close>.\<close>

definition expires_not_before :: "int \<Rightarrow> string \<Rightarrow> world \<Rightarrow> bool" where
  "expires_not_before d source w =
     (case redis w (LOG_KEY @ ''_'' @ source) of
        None \<Rightarrow> True
      | Some e \<Rightarrow> (case expire_at e of None \<Rightarrow> True | Some x \<Rightarrow> d \<le> x))"

text \<open>
  The first two steps of \<open>doRollover\<close> (lines 45-53) by themselves: the directory after
  the stream is closed, and the handler after the date is adopted.
\<close>

definition closed_fs :: "handler \<Rightarrow> filesys \<Rightarrow> filesys" where
  "closed_fs h fs = (case stream h of None \<Rightarrow> fs | Some st \<Rightarrow> stream_close st fs)"

definition adopted :: "string \<Rightarrow> handler \<Rightarrow> handler" where
  "adopted today h =
     (if today \<noteq> current_date h
      then h\<lparr>stream := None, current_date := today,
              base_filename := py_replace (baseFilename h) (last_segment (baseFilename h))
                                 (today @ ''.txt'')\<rparr>
      else h\<lparr>stream := None\<rparr>)"

text \<open>
  The file writer can take a record: the root logger has no handler, or one handler with
  its stream open, its active file present and no path refused.
\<close>

definition writer_ready :: "world \<Rightarrow> bool" where
  "writer_ready w =
     (case handlers w of
        [] \<Rightarrow> True
      | [h] \<Rightarrow> stream h \<noteq> None \<and> files (fsys w) (abspath (fsys w) (baseFilename h)) \<noteq> None
               \<and> denied (fsys w) = {}
      | _ \<Rightarrow> False)"

section \<open>Concrete states\<close>

text \<open>
  A handler opened on the first of January in \<open>/app\<close> with four bytes still in its
  buffer, over a five-byte file.
\<close>

definition h_buffered :: handler where
  "h_buffered =
     \<lparr>current_date = ''2024-01-01'', base_filename = ''system_logs_2024-01-01.txt'',
      baseFilename = ''/app/system_logs_2024-01-01.txt'', maxBytes = 8, backupCount = 3,
      stream = Some \<lparr>spath = ''/app/system_logs_2024-01-01.txt'', sbuf = ''wxyz''\<rparr>,
      formatter = None\<rparr>"

definition fs_buffered :: filesys where
  "fs_buffered =
     \<lparr>files = [''/app/system_logs_2024-01-01.txt'' \<mapsto> ''abcde''], denied = {}, cwd = ''/app''\<rparr>"

definition rec_hello :: log_record where
  "rec_hello = \<lparr>asctime = ''2024-01-01 10:00:00,000'', levelname = ''INFO'', msg = ''[LISTENER] hello''\<rparr>"

definition w_demo :: world where
  "w_demo =
     \<lparr>fsys = fs_buffered, handlers = [h_buffered],
      redis = [''system_logs_listener'' \<mapsto> \<lparr>items = [''a'', ''b'', ''a''], expire_at = Some 1000\<rparr>,
               ''system_logs_processor'' \<mapsto> \<lparr>items = [''p''], expire_at = None\<rparr>],
      redis_fault = None, local_max_bytes = 1048576, local_backup_count = 10\<rparr>"

definition clk_demo :: clock where
  "clk_demo = \<lparr>c_date = ''2024-01-01'', c_asctime = ''2024-01-01 10:00:00,000'', c_now = 10\<rparr>"

definition form_demo :: "string \<rightharpoonup> string" where
  "form_demo = [''maxBytes'' \<mapsto> ''2'', ''backupCount'' \<mapsto> '' 7'']"

definition clk_later :: clock where
  "clk_later = \<lparr>c_date = ''2024-01-01'', c_asctime = ''2024-01-01 11:00:00,000'', c_now = 3610\<rparr>"

definition calls_demo :: "(clock \<times> string) list" where
  "calls_demo = [(clk_demo, ''a''), (clk_demo, ''b''), (clk_later, ''a'')]"

text \<open>The working directory of \<open>h_buffered\<close> with three backups of the day in it.\<close>

definition fs_rot :: filesys where
  "fs_rot =
     \<lparr>files = [''/app/system_logs_2024-01-01.txt'' \<mapsto> ''abcde'',
               ''/app/system_logs_1_2024-01-01.txt'' \<mapsto> ''old1'',
               ''/app/system_logs_2_2024-01-01.txt'' \<mapsto> ''old2'',
               ''/app/system_logs_3_2024-01-01.txt'' \<mapsto> ''old3''],
      denied = {}, cwd = ''/app''\<rparr>"

text \<open>
  The directory \<open>/app\<close> with no file in it (for \<open>h_buffered\<close>: its log file was removed by
  someone else), and the directory of the three backups with the name of backup 3 refused
  by the operating system.
\<close>

definition fs_unlinked :: filesys where
  "fs_unlinked = \<lparr>files = Map.empty, denied = {}, cwd = ''/app''\<rparr>"

definition fs_denied :: filesys where
  "fs_denied = fs_rot\<lparr>denied := {''/app/system_logs_3_2024-01-01.txt''}\<rparr>"

text \<open>
  The handler (three backups, the standard formatter) and the directory after the handler
  was built on 2024-01-01 in the empty \<open>/app\<close> and wrote one record that day, and the
  record that arrives the day after.
\<close>

definition h_day1 :: handler where
  "h_day1 =
     \<lparr>current_date = ''2024-01-01'', base_filename = ''system_logs_2024-01-01.txt'',
      baseFilename = ''/app/system_logs_2024-01-01.txt'', maxBytes = 1048576, backupCount = 3,
      stream = Some \<lparr>spath = ''/app/system_logs_2024-01-01.txt'', sbuf = []\<rparr>,
      formatter = Some std_format\<rparr>"

definition fs_day1 :: filesys where
  "fs_day1 =
     \<lparr>files = [''/app/system_logs_2024-01-01.txt'' \<mapsto> std_format rec_hello @ [CHR 0x0A]],
      denied = {}, cwd = ''/app''\<rparr>"

definition rec_next :: log_record where
  "rec_next = \<lparr>asctime = ''2024-01-02 00:00:05,000'', levelname = ''INFO'', msg = ''[LISTENER] again''\<rparr>"

text \<open>The world \<open>w_demo\<close> after its log file was removed.\<close>

definition w_unlinked :: world where
  "w_unlinked = w_demo\<lparr>fsys := fs_unlinked\<rparr>"

text \<open>
  The directory of \<open>h_buffered\<close> with backups 1 and 2 of the first of January, and backups 1
  and 2 that carry the date of the second.
\<close>

definition fs_two_days :: filesys where
  "fs_two_days =
     \<lparr>files = [''/app/system_logs_2024-01-01.txt'' \<mapsto> ''abcde'',
               ''/app/system_logs_1_2024-01-01.txt'' \<mapsto> ''old1'',
               ''/app/system_logs_2_2024-01-01.txt'' \<mapsto> ''old2'',
               ''/app/system_logs_1_2024-01-02.txt'' \<mapsto> ''new1'',
               ''/app/system_logs_2_2024-01-02.txt'' \<mapsto> ''new2''],
      denied = {}, cwd = ''/app''\<rparr>"

section \<open>Properties\<close>


lemmas handler_defs = emit_def shouldRollover_def doRollover_def BaseRotatingHandler_emit_def
  FileHandler_emit_def StreamHandler_emit_def handleError_def handler_open_def open_append_def
  stream_flush_def stream_close_def stream_write_def os_path_getsize_def os_path_exists_def
  os_rename_def abspath_def backup_name_def py_range_down_def str_int_def

lemma str_nat_digits: "str_nat 1 = ''1''" "str_nat 2 = ''2''" "str_nat 3 = ''3''"
  by code_simp+

subsection \<open>The rollover decision\<close>



subsection \<open>The facade routes\<close>

text \<open>
  C9. A read-logs request without the \<open>type\<close> argument and a clear-logs request without
  the \<open>type\<close> field behave as the same requests with \<open>type = listener\<close>: the read returns
  the stream under the key \<open>system_logs_listener\<close>, the clear deletes that key.
\<close>

theorem default_source_listener:
  assumes "args ''type'' = None" and "form ''type'' = None" and "redis_fault w = None"
  shows "get_logs now args w = get_logs now [''type'' \<mapsto> ''listener''] w
       \<and> get_logs now args w
           = (Logs (fromkeys (redis_lrange now ''system_logs_listener'' 0 (- 1) (redis w))), 200)
       \<and> clear_logs form w = clear_logs [''type'' \<mapsto> ''listener''] w
       \<and> redis (snd (clear_logs form w)) = (redis w)(''system_logs_listener'' := None)"
  using assms
  by (simp add: get_logs_def clear_logs_def LOG_KEY_def redis_delete_def Let_def)

text \<open>The default at work on a store that holds a listener and a processor stream.\<close>

theorem default_source_listener_witness:
  "Map.empty ''type'' = (None :: string option) \<and> redis_fault w_demo = None
   \<and> get_logs 10 Map.empty w_demo = (Logs [''a'', ''b''], 200)
   \<and> redis (snd (clear_logs Map.empty w_demo)) ''system_logs_listener'' = None
   \<and> redis (snd (clear_logs Map.empty w_demo)) ''system_logs_processor''
        = Some \<lparr>items = [''p''], expire_at = None\<rparr>"
proof -
  have f: "redis_fault w_demo = None"
    by (simp add: w_demo_def)
  have e: "Map.empty ''type'' = (None :: string option)"
    by simp
  have l: "fromkeys (redis_lrange 10 ''system_logs_listener'' 0 (- 1) (redis w_demo)) = [''a'', ''b'']"
    by (simp add: w_demo_def redis_lrange_def live_def list_range_def fromkeys_def Let_def)
  have p: "redis w_demo ''system_logs_processor'' = Some \<lparr>items = [''p''], expire_at = None\<rparr>"
    by (simp add: w_demo_def)
  note t = default_source_listener [OF e e f, of 10]
  have g: "get_logs 10 Map.empty w_demo = (Logs [''a'', ''b''], 200)"
    using t [THEN conjunct2, THEN conjunct1] l by simp
  have c: "redis (snd (clear_logs Map.empty w_demo)) = (redis w_demo)(''system_logs_listener'' := None)"
    using t by blast
  show ?thesis
    using e f g p by (simp add: c)
qed

text \<open>
  C6. A configuration update whose two fields are not both numeric and positive returns
  a failure body with one of the two fixed messages and leaves the whole state as it
  was: the configuration read afterwards is the prior pair and the installed handlers are
  the prior handlers.
\<close>

theorem update_logging_config_rejects:
  assumes "form ''maxBytes'' = Some a" and "form ''backupCount'' = Some b"
    and "\<not> (\<exists>v c. py_int a = Some v \<and> py_int b = Some c \<and> 0 < v \<and> 0 < c)"
  shows "\<exists>m. update_logging_config clk form w = (Returns (Message False m, 200), w)
           \<and> m \<in> {''Values must be greater than 0!'', ''Invalid input. Please enter valid numbers!''}
           \<and> get_logging_config (snd (update_logging_config clk form w))
               = (Config (local_max_bytes w) (local_backup_count w), 200)
           \<and> handlers (snd (update_logging_config clk form w)) = handlers w"
proof (cases "py_int a")
  case None
  then show ?thesis
    using assms
    by (simp add: update_logging_config_def update_body_def form_int_def get_logging_config_def)
next
  case (Some v)
  note va = this
  show ?thesis
  proof (cases "py_int b")
    case None
    then show ?thesis
      using assms va
      by (simp add: update_logging_config_def update_body_def form_int_def get_logging_config_def)
  next
    case (Some c)
    with va assms(3) have "v \<le> 0 \<or> c \<le> 0"
      by auto
    then show ?thesis
      using assms va Some
      by (auto simp: update_logging_config_def update_body_def form_int_def get_logging_config_def)
  qed
qed

text \<open>The rejected request \<open>maxBytes = 0, backupCount = 5\<close>.\<close>

theorem update_logging_config_rejects_witness:
  "[''maxBytes'' \<mapsto> ''0'', ''backupCount'' \<mapsto> ''5''] ''maxBytes'' = Some ''0''
   \<and> [''maxBytes'' \<mapsto> ''0'', ''backupCount'' \<mapsto> ''5''] ''backupCount'' = Some ''5''
   \<and> \<not> (\<exists>v c. py_int ''0'' = Some v \<and> py_int ''5'' = Some c \<and> 0 < v \<and> 0 < c)
   \<and> update_logging_config clk_demo [''maxBytes'' \<mapsto> ''0'', ''backupCount'' \<mapsto> ''5''] w_demo
        = (Returns (Message False ''Values must be greater than 0!'', 200), w_demo)
   \<and> get_logging_config
        (snd (update_logging_config clk_demo [''maxBytes'' \<mapsto> ''0'', ''backupCount'' \<mapsto> ''5''] w_demo))
        = (Config 1048576 10, 200)"
proof -
  have p0: "py_int ''0'' = Some 0" and p5: "py_int ''5'' = Some 5"
    by (simp_all add: py_int_def strip_def is_space_def digit_of_def)
  have h: "\<not> (\<exists>v c. py_int ''0'' = Some v \<and> py_int ''5'' = Some c \<and> 0 < v \<and> 0 < c)"
    by (simp add: p0 p5)
  from update_logging_config_rejects
         [of "[''maxBytes'' \<mapsto> ''0'', ''backupCount'' \<mapsto> ''5'']" "''0''" "''5''" clk_demo w_demo, OF _ _ h]
  obtain m where
    t: "update_logging_config clk_demo [''maxBytes'' \<mapsto> ''0'', ''backupCount'' \<mapsto> ''5''] w_demo
          = (Returns (Message False m, 200), w_demo)"
    by auto
  have "update_logging_config clk_demo [''maxBytes'' \<mapsto> ''0'', ''backupCount'' \<mapsto> ''5''] w_demo
          = (Returns (Message False ''Values must be greater than 0!'', 200), w_demo)"
    using t by (simp add: update_logging_config_def update_body_def form_int_def p0 p5)
  then show ?thesis using h
    by (simp add: get_logging_config_def w_demo_def)
qed

lemma replace_system_logs:
  "py_replace ''system_logs.txt'' ''.txt'' (''_'' @ d @ ''.txt'') = ''system_logs_'' @ d @ ''.txt''"
  by (simp add: py_replace_def)

text \<open>
  C10. Once an update with numeric fields \<open>v > 0\<close> and \<open>c > 0\<close> has returned, it has returned
  the success body, the configuration read afterwards reports \<open>maxBytes = v * 1048576\<close>
  and \<open>backupCount = c\<close>, and the one installed handler carries the same two values.
\<close>

theorem update_logging_config_accepts:
  assumes "form ''maxBytes'' = Some a" and "form ''backupCount'' = Some b"
    and "py_int a = Some v" and "py_int b = Some c" and "0 < v" and "0 < c"
    and "fst (update_logging_config clk form w) = Returns resp"
  shows "resp = (Message True ''Logging configuration updated successfully!'', 200)
       \<and> get_logging_config (snd (update_logging_config clk form w)) = (Config (v * 1048576) c, 200)
       \<and> map maxBytes (handlers (snd (update_logging_config clk form w))) = [v * 1048576]
       \<and> map backupCount (handlers (snd (update_logging_config clk form w))) = [c]"
  using assms
  by (auto simp: update_logging_config_def update_body_def form_int_def get_logging_config_def
                 configure_logging_def handler_init_def handler_open_def open_append_def Let_def
           split: if_splits option.splits)

text \<open>Two MiB and seven backups, the count written with a leading blank.\<close>

theorem update_logging_config_accepts_witness:
  "form_demo ''maxBytes'' = Some ''2'' \<and> form_demo ''backupCount'' = Some '' 7''
   \<and> py_int ''2'' = Some 2 \<and> py_int '' 7'' = Some 7
   \<and> fst (update_logging_config clk_demo form_demo w_demo)
        = Returns (Message True ''Logging configuration updated successfully!'', 200)
   \<and> get_logging_config (snd (update_logging_config clk_demo form_demo w_demo))
        = (Config 2097152 7, 200)
   \<and> map maxBytes (handlers (snd (update_logging_config clk_demo form_demo w_demo))) = [2097152]"
proof -
  have f: "form_demo ''maxBytes'' = Some ''2''" "form_demo ''backupCount'' = Some '' 7''"
    by (simp_all add: form_demo_def)
  have p: "py_int ''2'' = Some 2" "py_int '' 7'' = Some 7"
    by (simp_all add: py_int_def strip_def is_space_def digit_of_def)
  have r: "fst (update_logging_config clk_demo form_demo w_demo)
             = Returns (Message True ''Logging configuration updated successfully!'', 200)"
    by (simp add: update_logging_config_def update_body_def form_int_def f p configure_logging_def
          handler_init_def handler_open_def open_append_def abspath_def w_demo_def fs_buffered_def
          clk_demo_def replace_system_logs Let_def)
  from update_logging_config_accepts [OF f p _ _ r]
  show ?thesis using f p r by simp
qed

subsection \<open>Backup names\<close>

lemma digit_char_inj: "a < 10 \<Longrightarrow> b < 10 \<Longrightarrow> digit_char a = digit_char b \<Longrightarrow> a = b"
proof -
  assume a: "a < 10" and b: "b < 10" and e: "digit_char a = digit_char b"
  have "of_char (digit_char a) = (48 + a) mod 256" "of_char (digit_char b) = (48 + b) mod 256"
    by (simp_all add: digit_char_def)
  with e have "(48 + a) mod 256 = (48 + b) mod 256"
    by simp
  with a b show "a = b"
    by simp
qed

lemma str_nat_nonempty: "str_nat n \<noteq> []"
  by (subst str_nat.simps) simp

lemma str_nat_inj: "str_nat n = str_nat m \<Longrightarrow> n = m"
proof (induction n arbitrary: m rule: str_nat.induct)
  case (1 n)
  show ?case
  proof (cases "n < 10")
    case True
    note n = this
    show ?thesis
    proof (cases "m < 10")
      case True
      with n "1.prems" show ?thesis
        by (simp add: str_nat.simps [of n] str_nat.simps [of m] digit_char_inj)
    next
      case False
      with n "1.prems" str_nat_nonempty [of "m div 10"] show ?thesis
        by (simp add: str_nat.simps [of n] str_nat.simps [of m])
    qed
  next
    case False
    note n = this
    show ?thesis
    proof (cases "m < 10")
      case True
      with n "1.prems" str_nat_nonempty [of "n div 10"] show ?thesis
        by (simp add: str_nat.simps [of n] str_nat.simps [of m])
    next
      case False
      with n "1.prems" have e: "str_nat (n div 10) = str_nat (m div 10)"
          and d: "digit_char (n mod 10) = digit_char (m mod 10)"
        by (simp_all add: str_nat.simps [of n] str_nat.simps [of m])
      have "n div 10 = m div 10"
        using n e by (rule "1.IH")
      moreover have "n mod 10 = m mod 10"
        using d by (intro digit_char_inj) simp_all
      ultimately show ?thesis
        by (metis div_mult_mod_eq)
    qed
  qed
qed

lemma str_int_inj: "0 \<le> i \<Longrightarrow> 0 \<le> j \<Longrightarrow> str_int i = str_int j \<Longrightarrow> i = j"
  using str_nat_inj [of "nat i" "nat j"] by (simp add: str_int_def)

lemma abspath_relative_inj:
  "\<not> is_absolute a \<Longrightarrow> \<not> is_absolute b \<Longrightarrow> abspath fs a = abspath fs b \<Longrightarrow> a = b"
  by (auto simp: abspath_def is_absolute_def split: if_splits)

lemma backup_name_relative: "\<not> is_absolute (backup_name i d)"
  by (simp add: backup_name_def is_absolute_def)

lemma backup_path_inj:
  "0 \<le> i \<Longrightarrow> 0 \<le> j \<Longrightarrow> abspath fs (backup_name i d) = abspath fs (backup_name j d) \<Longrightarrow> i = j"
proof -
  assume i: "0 \<le> i" and j: "0 \<le> j" and e: "abspath fs (backup_name i d) = abspath fs (backup_name j d)"
  have "backup_name i d = backup_name j d"
    using backup_name_relative backup_name_relative e by (rule abspath_relative_inj)
  then have "str_int i = str_int j"
    by (simp add: backup_name_def)
  with i j show "i = j"
    by (rule str_int_inj)
qed

lemma abspath_cwd: "cwd fs' = cwd fs \<Longrightarrow> abspath fs' p = abspath fs p"
  by (simp add: abspath_def)

lemma abspath_files_update: "abspath (fs\<lparr>files := f\<rparr>) p = abspath fs p"
  by (simp add: abspath_def)

lemma rev_upto_Suc: "rev [1..int (Suc n)] = int (Suc n) # rev [1..int n]"
proof -
  have "[1..int (Suc n)] = [1..int (Suc n) - 1] @ [int (Suc n)]"
    by (rule upto_rec2) simp
  then show ?thesis by simp
qed

lemma shift_backups_desc:
  "denied fs = {} \<Longrightarrow>
   fst (shift_backups d (rev [1..int n]) fs) = Returns ()
   \<and> cwd (snd (shift_backups d (rev [1..int n]) fs)) = cwd fs
   \<and> denied (snd (shift_backups d (rev [1..int n]) fs)) = {}
   \<and> (\<forall>j x. 1 \<le> j \<and> j \<le> int n \<and> files fs (abspath fs (backup_name j d)) = Some x
        \<longrightarrow> files (snd (shift_backups d (rev [1..int n]) fs)) (abspath fs (backup_name (j + 1) d)) = Some x)
   \<and> (\<forall>p. (\<forall>j. 1 \<le> j \<and> j \<le> int n + 1 \<longrightarrow> p \<noteq> abspath fs (backup_name j d))
        \<longrightarrow> files (snd (shift_backups d (rev [1..int n]) fs)) p = files fs p)
   \<and> (0 < n \<longrightarrow> files (snd (shift_backups d (rev [1..int n]) fs)) (abspath fs (backup_name 1 d)) = None)"
proof (induction n arbitrary: fs)
  case 0
  then show ?case by auto
next
  case (Suc n)
  let ?bk = "\<lambda>j. abspath fs (backup_name j d)"
  define k where "k = int n + 1"
  have k: "int (Suc n) = k" "0 \<le> k" "int n = k - 1"
    by (simp_all add: k_def)
  define fs1 where
    "fs1 = (case files fs (?bk k) of
              None \<Rightarrow> fs
            | Some x \<Rightarrow> fs\<lparr>files := ((files fs)(?bk k := None))(?bk (k + 1) \<mapsto> x)\<rparr>)"
  have l: "rev [1..k] = k # rev [1..k - 1]"
    using rev_upto_Suc [of n] by (simp add: k_def add.commute)
  have step: "shift_backups d (rev [1..k]) fs = shift_backups d (rev [1..k - 1]) fs1"
    unfolding l using Suc.prems
    by (simp add: fs1_def os_path_exists_def os_rename_def Let_def split: option.splits)
  have d1: "denied fs1 = {}" and c1: "cwd fs1 = cwd fs"
    using Suc.prems by (simp_all add: fs1_def split: option.splits)
  have a1: "\<And>p. abspath fs1 p = abspath fs p"
    using c1 by (rule abspath_cwd)
  have ne: "\<And>i j. 0 \<le> i \<Longrightarrow> 0 \<le> j \<Longrightarrow> i \<noteq> j \<Longrightarrow> ?bk i \<noteq> ?bk j"
    using backup_path_inj by blast
  have low: "\<And>j. 1 \<le> j \<Longrightarrow> j < k \<Longrightarrow> files fs1 (?bk j) = files fs (?bk j)"
    using ne k(2) by (simp add: fs1_def split: option.splits)
  have top: "\<And>x. files fs (?bk k) = Some x \<Longrightarrow> files fs1 (?bk (k + 1)) = Some x"
    by (simp add: fs1_def)
  have gone: "files fs1 (?bk k) = None"
    using ne [of k "k + 1"] k(2) by (simp add: fs1_def split: option.splits)
  have frame1: "\<And>p. p \<noteq> ?bk k \<Longrightarrow> p \<noteq> ?bk (k + 1) \<Longrightarrow> files fs1 p = files fs p"
    by (simp add: fs1_def split: option.splits)
  note ih = Suc.IH [OF d1, unfolded a1 k(3)]
  let ?r = "shift_backups d (rev [1..k - 1]) fs1"
  have r1: "fst ?r = Returns ()" and r2: "cwd (snd ?r) = cwd fs" and r3: "denied (snd ?r) = {}"
    using ih c1 by simp_all
  have r4: "\<And>j x. 1 \<le> j \<Longrightarrow> j \<le> k - 1 \<Longrightarrow> files fs1 (?bk j) = Some x
               \<Longrightarrow> files (snd ?r) (?bk (j + 1)) = Some x"
    using ih by blast
  have r5: "\<And>p. (\<And>j. 1 \<le> j \<Longrightarrow> j \<le> k - 1 + 1 \<Longrightarrow> p \<noteq> ?bk j) \<Longrightarrow> files (snd ?r) p = files fs1 p"
    using ih by blast
  have r6: "0 < n \<Longrightarrow> files (snd ?r) (?bk 1) = None"
    using ih by blast
  have m: "\<And>j x. 1 \<le> j \<Longrightarrow> j \<le> k \<Longrightarrow> files fs (?bk j) = Some x
               \<Longrightarrow> files (snd ?r) (?bk (j + 1)) = Some x"
  proof -
    fix j x
    assume j: "1 \<le> j" "j \<le> k" and x: "files fs (?bk j) = Some x"
    show "files (snd ?r) (?bk (j + 1)) = Some x"
    proof (cases "j < k")
      case True
      with j x low [of j] show ?thesis by (intro r4) simp_all
    next
      case False
      with j have e: "j = k" by simp
      have "files (snd ?r) (?bk (k + 1)) = files fs1 (?bk (k + 1))"
      proof (rule r5)
        fix i
        assume "1 \<le> i" "i \<le> k - 1 + 1"
        then show "?bk (k + 1) \<noteq> ?bk i"
          using k(2) by (intro ne) simp_all
      qed
      with x e top show ?thesis by simp
    qed
  qed
  have f: "\<And>p. (\<And>j. 1 \<le> j \<Longrightarrow> j \<le> k + 1 \<Longrightarrow> p \<noteq> ?bk j) \<Longrightarrow> files (snd ?r) p = files fs p"
  proof -
    fix p
    assume p: "\<And>j. 1 \<le> j \<Longrightarrow> j \<le> k + 1 \<Longrightarrow> p \<noteq> ?bk j"
    have "files (snd ?r) p = files fs1 p"
      using p by (intro r5) simp
    also have "\<dots> = files fs p"
      using p [of k] p [of "k + 1"] by (intro frame1) (simp_all add: k_def)
    finally show "files (snd ?r) p = files fs p" .
  qed
  have g: "files (snd ?r) (?bk 1) = None"
  proof (cases "0 < n")
    case True
    then show ?thesis by (rule r6)
  next
    case False
    then have n: "k = 1" by (simp add: k_def)
    have "files (snd ?r) (?bk 1) = files fs1 (?bk 1)"
      by (simp add: n)
    with gone n show ?thesis by simp
  qed
  show ?case
    unfolding k(1) step using r1 r2 r3 m f g by blast
qed

lemma shift_backups_exact:
  "denied fs = {} \<Longrightarrow>
   (\<forall>j. 2 \<le> j \<and> j \<le> int n
        \<longrightarrow> files (snd (shift_backups d (rev [1..int n]) fs)) (abspath fs (backup_name j d))
            = files fs (abspath fs (backup_name (j - 1) d)))
   \<and> (0 < n \<longrightarrow> files (snd (shift_backups d (rev [1..int n]) fs)) (abspath fs (backup_name (int n + 1) d))
            = (case files fs (abspath fs (backup_name (int n) d)) of
                 None \<Rightarrow> files fs (abspath fs (backup_name (int n + 1) d))
               | Some x \<Rightarrow> Some x))"
proof (induction n arbitrary: fs)
  case 0
  then show ?case by auto
next
  case (Suc n)
  let ?bk = "\<lambda>j. abspath fs (backup_name j d)"
  define k where "k = int n + 1"
  have k: "int (Suc n) = k" "0 \<le> k" "int n = k - 1"
    by (simp_all add: k_def)
  define fs1 where
    "fs1 = (case files fs (?bk k) of
              None \<Rightarrow> fs
            | Some x \<Rightarrow> fs\<lparr>files := ((files fs)(?bk k := None))(?bk (k + 1) \<mapsto> x)\<rparr>)"
  have l: "rev [1..k] = k # rev [1..k - 1]"
    using rev_upto_Suc [of n] by (simp add: k_def add.commute)
  have step: "shift_backups d (rev [1..k]) fs = shift_backups d (rev [1..k - 1]) fs1"
    unfolding l using Suc.prems
    by (simp add: fs1_def os_path_exists_def os_rename_def Let_def split: option.splits)
  have d1: "denied fs1 = {}" and c1: "cwd fs1 = cwd fs"
    using Suc.prems by (simp_all add: fs1_def split: option.splits)
  have a1: "\<And>p. abspath fs1 p = abspath fs p"
    using c1 by (rule abspath_cwd)
  have ne: "\<And>i j. 0 \<le> i \<Longrightarrow> 0 \<le> j \<Longrightarrow> i \<noteq> j \<Longrightarrow> ?bk i \<noteq> ?bk j"
    using backup_path_inj by blast
  have low: "\<And>j. 1 \<le> j \<Longrightarrow> j < k \<Longrightarrow> files fs1 (?bk j) = files fs (?bk j)"
    using ne k(2) by (simp add: fs1_def split: option.splits)
  have top: "files fs1 (?bk (k + 1)) = (case files fs (?bk k) of None \<Rightarrow> files fs (?bk (k + 1)) | Some x \<Rightarrow> Some x)"
    by (simp add: fs1_def split: option.splits)
  have gone: "files fs1 (?bk k) = None"
    using ne [of k "k + 1"] k(2) by (simp add: fs1_def split: option.splits)
  note ih = Suc.IH [OF d1, unfolded a1 k(3)]
  note old = shift_backups_desc [OF d1, of d n, unfolded a1 k(3)]
  let ?r = "shift_backups d (rev [1..k - 1]) fs1"
  have r1: "\<And>j. 2 \<le> j \<Longrightarrow> j \<le> k - 1 \<Longrightarrow> files (snd ?r) (?bk j) = files fs1 (?bk (j - 1))"
    using ih by blast
  have r2: "0 < n \<Longrightarrow> files (snd ?r) (?bk (k - 1 + 1))
              = (case files fs1 (?bk (k - 1)) of None \<Rightarrow> files fs1 (?bk (k - 1 + 1)) | Some x \<Rightarrow> Some x)"
    using ih by blast
  have r5: "\<And>p. (\<And>j. 1 \<le> j \<Longrightarrow> j \<le> k - 1 + 1 \<Longrightarrow> p \<noteq> ?bk j) \<Longrightarrow> files (snd ?r) p = files fs1 p"
    using old by blast
  have m: "\<And>j. 2 \<le> j \<Longrightarrow> j \<le> k \<Longrightarrow> files (snd ?r) (?bk j) = files fs (?bk (j - 1))"
  proof -
    fix j
    assume j: "2 \<le> j" "j \<le> k"
    show "files (snd ?r) (?bk j) = files fs (?bk (j - 1))"
    proof (cases "j < k")
      case True
      with j have "files (snd ?r) (?bk j) = files fs1 (?bk (j - 1))"
        by (intro r1) simp_all
      also have "\<dots> = files fs (?bk (j - 1))"
        using j True by (intro low) simp_all
      finally show ?thesis .
    next
      case False
      with j have e: "j = k" by simp
      with j have n: "0 < n" by (simp add: k_def)
      have "files fs1 (?bk (k - 1)) = files fs (?bk (k - 1))"
        using j e by (intro low) simp_all
      with r2 [OF n] gone have "files (snd ?r) (?bk k) = files fs (?bk (k - 1))"
        by (simp split: option.splits)
      with e show ?thesis by simp
    qed
  qed
  have t: "files (snd ?r) (?bk (k + 1))
             = (case files fs (?bk k) of None \<Rightarrow> files fs (?bk (k + 1)) | Some x \<Rightarrow> Some x)"
  proof -
    have "files (snd ?r) (?bk (k + 1)) = files fs1 (?bk (k + 1))"
    proof (rule r5)
      fix i
      assume "1 \<le> i" "i \<le> k - 1 + 1"
      then show "?bk (k + 1) \<noteq> ?bk i"
        using k(2) by (intro ne) simp_all
    qed
    with top show ?thesis by simp
  qed
  show ?case
    unfolding k(1) step using m t by blast
qed

lemma py_range_down_nat: "py_range_down bc = rev [1..int (nat (bc - 1))]"
proof (cases "1 \<le> bc")
  case True
  then show ?thesis by (simp add: py_range_down_def)
next
  case False
  then have "[1..bc - 1] = []" "nat (bc - 1) = 0"
    by simp_all
  then show ?thesis by (simp add: py_range_down_def)
qed

lemma abspath_idem: "is_absolute (cwd fs) \<Longrightarrow> abspath fs (abspath fs p) = abspath fs p"
  by (auto simp: abspath_def is_absolute_def)

lemma base_not_backup:
  "abspath fs (''system_logs_'' @ d @ ''.txt'') \<noteq> abspath fs (backup_name j d)"
proof
  assume e: "abspath fs (''system_logs_'' @ d @ ''.txt'') = abspath fs (backup_name j d)"
  have r: "\<not> is_absolute (''system_logs_'' @ d @ ''.txt'')"
    by (simp add: is_absolute_def)
  have "''system_logs_'' @ d @ ''.txt'' = backup_name j d"
    using r backup_name_relative e by (rule abspath_relative_inj)
  then have "length (''system_logs_'' @ d @ ''.txt'') = length (backup_name j d)"
    by (rule arg_cong)
  then show False by (simp add: backup_name_def)
qed

subsection \<open>Rotation\<close>

text \<open>
  C8, amended. Take a handler built for the date \<open>d\<close> as \<open>configure_logging\<close> builds it, so
  that \<open>base_filename\<close> names the file its stream is open on, and a rotation on that date
  with no path denied. The rotation returns and leaves, with \<open>n = backupCount\<close>:
  under the name of every backup \<open>j\<close> with \<open>2 \<le> j < n\<close> what backup \<open>j - 1\<close> was, absent if
  that was absent; under the name of backup \<open>n\<close> the old backup \<open>n - 1\<close> if there was one,
  replacing a backup \<open>n\<close> that was there, and the old backup \<open>n\<close> otherwise; the file just
  closed, with its buffered bytes, as backup 1; a new empty active file with the stream
  open on it; backup \<open>n + 1\<close> and every file that is neither the active file nor a backup
  \<open>1 \<dots> n\<close> of the date as they were. The attributes of the handler other than the stream
  are unchanged.
\<close>

theorem rotation_shifts_backups:
  assumes "denied fs = {}" and "is_absolute (cwd fs)"
    and "stream h = Some st" and "spath st = baseFilename h"
    and "current_date h = d" and "base_filename h = ''system_logs_'' @ d @ ''.txt''"
    and "baseFilename h = abspath fs (base_filename h)"
    and "files fs (baseFilename h) = Some c"
  shows "fst (doRollover d (h, fs)) = Returns ()
       \<and> (\<forall>j. 2 \<le> j \<and> j < backupCount h
            \<longrightarrow> files (snd (snd (doRollover d (h, fs)))) (abspath fs (backup_name j d))
                = files fs (abspath fs (backup_name (j - 1) d)))
       \<and> (2 \<le> backupCount h
            \<longrightarrow> files (snd (snd (doRollover d (h, fs)))) (abspath fs (backup_name (backupCount h) d))
                = (case files fs (abspath fs (backup_name (backupCount h - 1) d)) of
                     None \<Rightarrow> files fs (abspath fs (backup_name (backupCount h) d))
                   | Some x \<Rightarrow> Some x))
       \<and> files (snd (snd (doRollover d (h, fs)))) (abspath fs (backup_name 1 d)) = Some (c @ sbuf st)
       \<and> files (snd (snd (doRollover d (h, fs)))) (baseFilename h) = Some []
       \<and> (1 \<le> backupCount h
            \<longrightarrow> files (snd (snd (doRollover d (h, fs)))) (abspath fs (backup_name (backupCount h + 1) d))
                = files fs (abspath fs (backup_name (backupCount h + 1) d)))
       \<and> (\<forall>p. p \<noteq> baseFilename h
              \<and> (\<forall>j. 1 \<le> j \<and> j \<le> max 1 (backupCount h) \<longrightarrow> p \<noteq> abspath fs (backup_name j d))
            \<longrightarrow> files (snd (snd (doRollover d (h, fs)))) p = files fs p)
       \<and> fst (snd (doRollover d (h, fs))) = h\<lparr>stream := Some \<lparr>spath = baseFilename h, sbuf = []\<rparr>\<rparr>"
proof -
  let ?bf = "baseFilename h"
  let ?bk = "\<lambda>j. abspath fs (backup_name j d)"
  let ?bc = "backupCount h"
  define fs1 where "fs1 = fs\<lparr>files := (files fs)(?bf \<mapsto> c @ sbuf st)\<rparr>"
  define n where "n = nat (?bc - 1)"
  define fs2 where "fs2 = snd (shift_backups d (rev [1..int n]) fs1)"
  have pr: "py_range_down ?bc = rev [1..int n]"
    unfolding n_def by (rule py_range_down_nat)
  have bf: "?bf = abspath fs (''system_logs_'' @ d @ ''.txt'')"
    using assms(6,7) by simp
  have bfi: "abspath fs ?bf = ?bf"
    unfolding assms(7) using assms(2) by (rule abspath_idem)
  have nb: "\<And>j. ?bf \<noteq> ?bk j"
    unfolding bf by (rule base_not_backup)
  have ne: "\<And>i j. 0 \<le> i \<Longrightarrow> 0 \<le> j \<Longrightarrow> i \<noteq> j \<Longrightarrow> ?bk i \<noteq> ?bk j"
    using backup_path_inj by blast
  have close: "stream_close st fs = fs1"
    using assms(4,8) by (simp add: stream_close_def stream_flush_def fs1_def)
  have d1: "denied fs1 = {}" and c1: "cwd fs1 = cwd fs"
    using assms(1) by (simp_all add: fs1_def)
  have a1: "\<And>p. abspath fs1 p = abspath fs p"
    using c1 by (rule abspath_cwd)
  have old1: "\<And>j. files fs1 (?bk j) = files fs (?bk j)"
    using nb [symmetric] by (simp add: fs1_def)
  note sh = shift_backups_desc [OF d1, of d n, unfolded a1, folded fs2_def]
  note ex = shift_backups_exact [OF d1, of n d, unfolded a1 old1, folded fs2_def]
  have shift: "shift_backups d (rev [1..int n]) fs1 = (Returns (), fs2)"
    using sh by (simp add: fs2_def prod_eq_iff)
  have d2: "denied fs2 = {}" and c2: "cwd fs2 = cwd fs"
    using sh c1 by simp_all
  have a2: "\<And>p. abspath fs2 p = abspath fs p"
    using c2 by (rule abspath_cwd)
  have mid2: "\<And>j. 2 \<le> j \<Longrightarrow> j < ?bc \<Longrightarrow> files fs2 (?bk j) = files fs (?bk (j - 1))"
  proof -
    fix j
    assume j: "2 \<le> j" "j < ?bc"
    then have "j \<le> int n"
      by (simp add: n_def)
    with ex j(1) show "files fs2 (?bk j) = files fs (?bk (j - 1))"
      by blast
  qed
  have top2: "files fs2 (?bk ?bc)
                = (case files fs (?bk (?bc - 1)) of None \<Rightarrow> files fs (?bk ?bc) | Some x \<Rightarrow> Some x)"
    if b: "2 \<le> ?bc"
  proof -
    from b have n: "0 < n" "int n + 1 = ?bc" "int n = ?bc - 1"
      by (simp_all add: n_def)
    from ex n(1) have "files fs2 (?bk (int n + 1))
                = (case files fs (?bk (int n)) of None \<Rightarrow> files fs (?bk (int n + 1)) | Some x \<Rightarrow> Some x)"
      by blast
    then show ?thesis
      unfolding n(2) unfolding n(3) .
  qed
  have frame2: "\<And>p. (\<And>j. 1 \<le> j \<Longrightarrow> j \<le> max 1 ?bc \<Longrightarrow> p \<noteq> ?bk j) \<Longrightarrow> files fs2 p = files fs1 p"
  proof -
    fix p
    assume p: "\<And>j. 1 \<le> j \<Longrightarrow> j \<le> max 1 ?bc \<Longrightarrow> p \<noteq> ?bk j"
    have "int n + 1 = max 1 ?bc"
      by (simp add: n_def)
    with p have "\<forall>j. 1 \<le> j \<and> j \<le> int n + 1 \<longrightarrow> p \<noteq> ?bk j"
      by simp
    with sh show "files fs2 p = files fs1 p"
      by blast
  qed
  have base2: "files fs2 ?bf = Some (c @ sbuf st)"
  proof -
    have "files fs2 ?bf = files fs1 ?bf"
      using sh nb by blast
    then show ?thesis by (simp add: fs1_def)
  qed
  define fs3 where "fs3 = fs2\<lparr>files := ((files fs2)(?bf := None))(?bk 1 \<mapsto> c @ sbuf st)\<rparr>"
  define fs4 where "fs4 = fs3\<lparr>files := (files fs3)(?bf \<mapsto> [])\<rparr>"
  have ex2: "os_path_exists fs2 (base_filename h)"
    using base2 assms(7) by (simp add: os_path_exists_def a2)
  have rn: "os_rename fs2 (base_filename h) (backup_name 1 d) = (Returns (), fs3)"
    using base2 assms(7) d2 by (simp add: os_rename_def a2 fs3_def)
  have "cwd fs3 = cwd fs"
    using c2 by (simp add: fs3_def)
  then have "abspath fs3 ?bf = abspath fs ?bf"
    by (rule abspath_cwd)
  then have "abspath fs3 ?bf = ?bf"
    using bfi by simp
  moreover have "denied fs3 = {}" and "files fs3 ?bf = None"
    using d2 nb [of 1] by (simp_all add: fs3_def)
  ultimately have op: "handler_open (h\<lparr>stream := None\<rparr>, fs3) = (Returns \<lparr>spath = ?bf, sbuf = []\<rparr>, fs4)"
    by (simp add: handler_open_def open_append_def fs4_def Let_def)
  have res: "doRollover d (h, fs) = (Returns (), h\<lparr>stream := Some \<lparr>spath = ?bf, sbuf = []\<rparr>\<rparr>, fs4)"
    using assms(3,5) close shift ex2 rn op
    by (simp add: doRollover_def Let_def pr)
  have other4: "\<And>p. p \<noteq> ?bf \<Longrightarrow> p \<noteq> ?bk 1 \<Longrightarrow> files fs4 p = files fs2 p"
    by (simp add: fs4_def fs3_def)
  have k_mid: "\<And>j. 2 \<le> j \<Longrightarrow> j < ?bc \<Longrightarrow> files fs4 (?bk j) = files fs (?bk (j - 1))"
  proof -
    fix j
    assume j: "2 \<le> j" "j < ?bc"
    have "?bk j \<noteq> ?bk 1"
      using j(1) by (intro ne) simp_all
    with nb [of j] have "files fs4 (?bk j) = files fs2 (?bk j)"
      by (intro other4) simp_all
    with mid2 [OF j] show "files fs4 (?bk j) = files fs (?bk (j - 1))"
      by simp
  qed
  have k_top: "files fs4 (?bk ?bc)
                = (case files fs (?bk (?bc - 1)) of None \<Rightarrow> files fs (?bk ?bc) | Some x \<Rightarrow> Some x)"
    if b: "2 \<le> ?bc"
  proof -
    have "?bk ?bc \<noteq> ?bk 1"
      using b by (intro ne) simp_all
    with nb [of ?bc] have "files fs4 (?bk ?bc) = files fs2 (?bk ?bc)"
      by (intro other4) simp_all
    with top2 [OF b] show ?thesis
      by simp
  qed
  have k_one: "files fs4 (?bk 1) = Some (c @ sbuf st)"
    using nb [of 1] by (simp add: fs4_def fs3_def)
  have k_base: "files fs4 ?bf = Some []"
    by (simp add: fs4_def)
  have k_frame: "files fs4 p = files fs p"
    if q: "p \<noteq> ?bf" "\<And>j. 1 \<le> j \<Longrightarrow> j \<le> max 1 ?bc \<Longrightarrow> p \<noteq> ?bk j" for p
  proof -
    have "p \<noteq> ?bk 1"
      by (rule q(2)) simp_all
    with q(1) have "files fs4 p = files fs2 p"
      by (intro other4)
    also have "\<dots> = files fs1 p"
      using q(2) by (rule frame2)
    also have "\<dots> = files fs p"
      using q(1) by (simp add: fs1_def)
    finally show ?thesis .
  qed
  have k_next: "files fs4 (?bk (?bc + 1)) = files fs (?bk (?bc + 1))"
    if b: "1 \<le> ?bc"
  proof (rule k_frame)
    show "?bk (?bc + 1) \<noteq> ?bf"
      using nb [of "?bc + 1"] by simp
  next
    fix j
    assume "1 \<le> j" "j \<le> max 1 ?bc"
    with b show "?bk (?bc + 1) \<noteq> ?bk j"
      by (intro ne) simp_all
  qed
  show ?thesis
    unfolding res using k_mid k_top k_one k_base k_next k_frame by simp
qed

lemma str_nat_Suc_0: "str_nat (Suc 0) = ''1''"
  by code_simp

lemma backup_paths_demo:
  "abspath fs_rot (backup_name 1 ''2024-01-01'') = ''/app/system_logs_1_2024-01-01.txt''"
  "abspath fs_rot (backup_name 2 ''2024-01-01'') = ''/app/system_logs_2_2024-01-01.txt''"
  "abspath fs_rot (backup_name 3 ''2024-01-01'') = ''/app/system_logs_3_2024-01-01.txt''"
  by (simp_all add: abspath_def backup_name_def str_int_def str_nat_digits str_nat_Suc_0 fs_rot_def)

lemma str_nat_4: "str_nat 4 = ''4''"
  by code_simp

lemma backup_path_4:
  "abspath fs_rot (backup_name 4 ''2024-01-01'') = ''/app/system_logs_4_2024-01-01.txt''"
  by (simp add: abspath_def backup_name_def str_int_def str_nat_4 fs_rot_def)

text \<open>
  \<open>backupCount = 3\<close> with backups 1, 2 and 3 present and no backup 4: afterwards backup 1
  is the file just closed, backup 2 the old 1, backup 3 the old 2, there is no backup 4,
  and the directory holds these three and the new active file only: the old 3 is gone.
\<close>

theorem rotation_shifts_backups_witness:
  "denied fs_rot = {} \<and> is_absolute (cwd fs_rot)
   \<and> stream h_buffered = Some \<lparr>spath = ''/app/system_logs_2024-01-01.txt'', sbuf = ''wxyz''\<rparr>
   \<and> current_date h_buffered = ''2024-01-01'' \<and> backupCount h_buffered = 3
   \<and> base_filename h_buffered = ''system_logs_'' @ ''2024-01-01'' @ ''.txt''
   \<and> baseFilename h_buffered = abspath fs_rot (base_filename h_buffered)
   \<and> files fs_rot (baseFilename h_buffered) = Some ''abcde''
   \<and> files fs_rot ''/app/system_logs_1_2024-01-01.txt'' = Some ''old1''
   \<and> files fs_rot ''/app/system_logs_2_2024-01-01.txt'' = Some ''old2''
   \<and> files fs_rot ''/app/system_logs_3_2024-01-01.txt'' = Some ''old3''
   \<and> files fs_rot ''/app/system_logs_4_2024-01-01.txt'' = None
   \<and> fst (doRollover ''2024-01-01'' (h_buffered, fs_rot)) = Returns ()
   \<and> files (snd (snd (doRollover ''2024-01-01'' (h_buffered, fs_rot))))
         ''/app/system_logs_1_2024-01-01.txt'' = Some ''abcdewxyz''
   \<and> files (snd (snd (doRollover ''2024-01-01'' (h_buffered, fs_rot))))
         ''/app/system_logs_2_2024-01-01.txt'' = Some ''old1''
   \<and> files (snd (snd (doRollover ''2024-01-01'' (h_buffered, fs_rot))))
         ''/app/system_logs_3_2024-01-01.txt'' = Some ''old2''
   \<and> files (snd (snd (doRollover ''2024-01-01'' (h_buffered, fs_rot))))
         ''/app/system_logs_4_2024-01-01.txt'' = None
   \<and> files (snd (snd (doRollover ''2024-01-01'' (h_buffered, fs_rot))))
         ''/app/system_logs_2024-01-01.txt'' = Some []
   \<and> dom (files (snd (snd (doRollover ''2024-01-01'' (h_buffered, fs_rot)))))
       = {''/app/system_logs_2024-01-01.txt'', ''/app/system_logs_1_2024-01-01.txt'',
          ''/app/system_logs_2_2024-01-01.txt'', ''/app/system_logs_3_2024-01-01.txt''}"
proof -
  let ?st = "\<lparr>spath = ''/app/system_logs_2024-01-01.txt'', sbuf = ''wxyz''\<rparr>"
  let ?fs' = "snd (snd (doRollover ''2024-01-01'' (h_buffered, fs_rot)))"
  have a: "denied fs_rot = {}" "is_absolute (cwd fs_rot)"
    by (simp_all add: fs_rot_def is_absolute_def)
  have b: "stream h_buffered = Some ?st" "spath ?st = baseFilename h_buffered"
    "current_date h_buffered = ''2024-01-01''"
    "base_filename h_buffered = ''system_logs_'' @ ''2024-01-01'' @ ''.txt''"
    "backupCount h_buffered = 3"
    by (simp_all add: h_buffered_def)
  have c: "baseFilename h_buffered = abspath fs_rot (base_filename h_buffered)"
    by (simp add: h_buffered_def abspath_def fs_rot_def)
  have f: "files fs_rot (baseFilename h_buffered) = Some ''abcde''"
    "files fs_rot ''/app/system_logs_1_2024-01-01.txt'' = Some ''old1''"
    "files fs_rot ''/app/system_logs_2_2024-01-01.txt'' = Some ''old2''"
    "files fs_rot ''/app/system_logs_3_2024-01-01.txt'' = Some ''old3''"
    "files fs_rot ''/app/system_logs_4_2024-01-01.txt'' = None"
    by (simp_all add: fs_rot_def h_buffered_def)
  note t = rotation_shifts_backups [OF a b(1,2,3,4) c f(1), unfolded b(5)]
  have r: "fst (doRollover ''2024-01-01'' (h_buffered, fs_rot)) = Returns ()"
    using t by blast
  have "(2::int) \<le> 2 \<and> (2::int) < 3
        \<longrightarrow> files ?fs' (abspath fs_rot (backup_name 2 ''2024-01-01''))
            = files fs_rot (abspath fs_rot (backup_name (2 - 1) ''2024-01-01''))"
    using t by blast
  then have k2: "files ?fs' ''/app/system_logs_2_2024-01-01.txt'' = Some ''old1''"
    using f(2) by (simp add: backup_paths_demo)
  have "files ?fs' (abspath fs_rot (backup_name 3 ''2024-01-01''))
          = (case files fs_rot (abspath fs_rot (backup_name (3 - 1) ''2024-01-01'')) of
               None \<Rightarrow> files fs_rot (abspath fs_rot (backup_name 3 ''2024-01-01''))
             | Some x \<Rightarrow> Some x)"
    using t by simp
  then have k3: "files ?fs' ''/app/system_logs_3_2024-01-01.txt'' = Some ''old2''"
    using f(3) by (simp add: backup_paths_demo)
  have "files ?fs' (abspath fs_rot (backup_name 1 ''2024-01-01'')) = Some (''abcde'' @ sbuf ?st)"
    using t by blast
  then have k1: "files ?fs' ''/app/system_logs_1_2024-01-01.txt'' = Some ''abcdewxyz''"
    by (simp add: backup_paths_demo)
  have "files ?fs' (abspath fs_rot (backup_name (3 + 1) ''2024-01-01''))
          = files fs_rot (abspath fs_rot (backup_name (3 + 1) ''2024-01-01''))"
    using t by simp
  then have k4: "files ?fs' ''/app/system_logs_4_2024-01-01.txt'' = None"
    using f(5) by (simp add: backup_path_4)
  have "files ?fs' (baseFilename h_buffered) = Some []"
    using t by blast
  then have k0: "files ?fs' ''/app/system_logs_2024-01-01.txt'' = Some []"
    by (simp add: h_buffered_def)
  have dm: "dom (files ?fs')
       = {''/app/system_logs_2024-01-01.txt'', ''/app/system_logs_1_2024-01-01.txt'',
          ''/app/system_logs_2_2024-01-01.txt'', ''/app/system_logs_3_2024-01-01.txt''}"
    by (simp add: h_buffered_def fs_rot_def handler_defs str_nat_digits str_nat_Suc_0 Let_def upto.simps)
  show ?thesis
    using a b c f r k1 k2 k3 k4 k0 dm by (simp add: backup_paths_demo)
qed

text \<open>
  C8, as stated, fails. The handler \<open>h_buffered\<close> of 2024-01-01 (\<open>backupCount = 3\<close>) rotates
  on 2024-01-02, with backups 1 and 2 present under either date. Lines 50-53 adopt the new
  date before any rename: the backups of 2024-01-02 move up to 2 and 3, the file
  \<open>base_filename\<close> now names does not exist, and line 68 reopens \<open>baseFilename\<close>. The file
  just closed is backup 1 of neither date: it keeps its own name, the backups of 2024-01-01
  stay where they were, and no backup 1 of 2024-01-02 is made.
\<close>

theorem rollover_new_day_counterexample:
  "backupCount h_buffered = 3 \<and> current_date h_buffered = ''2024-01-01''
   \<and> stream h_buffered = Some \<lparr>spath = ''/app/system_logs_2024-01-01.txt'', sbuf = ''wxyz''\<rparr>
   \<and> files fs_two_days ''/app/system_logs_2024-01-01.txt'' = Some ''abcde''
   \<and> fst (doRollover ''2024-01-02'' (h_buffered, fs_two_days)) = Returns ()
   \<and> fst (snd (doRollover ''2024-01-02'' (h_buffered, fs_two_days)))
       = h_buffered\<lparr>current_date := ''2024-01-02'',
                     base_filename := ''/app/system_logs_2024-01-02.txt'',
                     stream := Some \<lparr>spath = ''/app/system_logs_2024-01-01.txt'', sbuf = []\<rparr>\<rparr>
   \<and> files (snd (snd (doRollover ''2024-01-02'' (h_buffered, fs_two_days))))
         ''/app/system_logs_2024-01-01.txt'' = Some ''abcdewxyz''
   \<and> files (snd (snd (doRollover ''2024-01-02'' (h_buffered, fs_two_days))))
         ''/app/system_logs_1_2024-01-01.txt'' = Some ''old1''
   \<and> files (snd (snd (doRollover ''2024-01-02'' (h_buffered, fs_two_days))))
         ''/app/system_logs_2_2024-01-01.txt'' = Some ''old2''
   \<and> files (snd (snd (doRollover ''2024-01-02'' (h_buffered, fs_two_days))))
         ''/app/system_logs_3_2024-01-01.txt'' = None
   \<and> files (snd (snd (doRollover ''2024-01-02'' (h_buffered, fs_two_days))))
         ''/app/system_logs_2024-01-02.txt'' = None
   \<and> files (snd (snd (doRollover ''2024-01-02'' (h_buffered, fs_two_days))))
         ''/app/system_logs_1_2024-01-02.txt'' = None
   \<and> files (snd (snd (doRollover ''2024-01-02'' (h_buffered, fs_two_days))))
         ''/app/system_logs_2_2024-01-02.txt'' = Some ''new1''
   \<and> files (snd (snd (doRollover ''2024-01-02'' (h_buffered, fs_two_days))))
         ''/app/system_logs_3_2024-01-02.txt'' = Some ''new2''"
proof -
  define res where "res = doRollover ''2024-01-02'' (h_buffered, fs_two_days)"
  have e: "res
     = (Returns (),
        h_buffered\<lparr>current_date := ''2024-01-02'',
                     base_filename := ''/app/system_logs_2024-01-02.txt'',
                     stream := Some \<lparr>spath = ''/app/system_logs_2024-01-01.txt'', sbuf = []\<rparr>\<rparr>,
        fs_two_days\<lparr>files := (((((files fs_two_days)
           (''/app/system_logs_2024-01-01.txt'' \<mapsto> ''abcdewxyz''))
           (''/app/system_logs_2_2024-01-02.txt'' := None))
           (''/app/system_logs_3_2024-01-02.txt'' \<mapsto> ''new2''))
           (''/app/system_logs_1_2024-01-02.txt'' := None))
           (''/app/system_logs_2_2024-01-02.txt'' \<mapsto> ''new1'')\<rparr>)"
    unfolding res_def
    by (simp add: h_buffered_def fs_two_days_def handler_defs py_replace_def last_segment_def
          str_nat_digits str_nat_Suc_0 Let_def upto.simps)
  show ?thesis
    unfolding res_def [symmetric] e by (simp add: h_buffered_def fs_two_days_def)
qed

subsection \<open>What \<open>emit\<close> raises\<close>

text \<open>
  C2, as stated, fails. With the active file unlinked, \<open>os.path.getsize\<close> in the first
  rollover check raises \<open>FileNotFoundError\<close>; with the name of backup 3 denied, the
  rename of backup 2 in the first rotation raises \<open>PermissionError\<close>. Both leave \<open>emit\<close>.
\<close>

theorem emit_raises_counterexample:
  "fst (emit ''2024-01-01'' rec_hello (h_buffered, fs_unlinked))
     = Raises (FileNotFoundError ''/app/system_logs_2024-01-01.txt'')
   \<and> fst (emit ''2024-01-01'' rec_hello (h_buffered, fs_denied))
     = Raises (PermissionError ''system_logs_2_2024-01-01.txt'')"
  by (simp add: h_buffered_def fs_unlinked_def fs_denied_def fs_rot_def handler_defs
        str_nat_digits str_nat_Suc_0 Let_def upto.simps)

text \<open>The inherited \<open>emit\<close> hands every exception to \<open>handleError\<close> and returns.\<close>

lemma inherited_emit_returns: "fst (BaseRotatingHandler_emit today r s) = Returns ()"
  by (simp add: BaseRotatingHandler_emit_def handleError_def FileHandler_emit_def
        StreamHandler_emit_def Let_def
      split: prod.splits outcome.splits option.splits if_splits)

text \<open>
  What \<open>os.rename\<close>, the shift loop and a rotation can raise, whatever the handler and the
  directory.
\<close>

lemma os_rename_preserves:
  "cwd (snd (os_rename fs a b)) = cwd fs \<and> denied (snd (os_rename fs a b)) = denied fs"
  by (simp add: os_rename_def Let_def split: option.splits)

lemma os_rename_refused:
  "files fs (abspath fs a) \<noteq> None \<Longrightarrow> abspath fs a \<in> denied fs \<or> abspath fs b \<in> denied fs \<Longrightarrow>
   fst (os_rename fs a b) = Raises (PermissionError a)"
  by (auto simp: os_rename_def Let_def split: option.splits)

lemma os_rename_raises:
  "files fs (abspath fs a) \<noteq> None \<Longrightarrow> fst (os_rename fs a b) = Raises e \<Longrightarrow>
   e = PermissionError a \<and> denied fs \<noteq> {}"
  by (auto simp: os_rename_def Let_def split: option.splits if_splits)

lemma shift_backups_preserves:
  "cwd (snd (shift_backups d js fs)) = cwd fs \<and> denied (snd (shift_backups d js fs)) = denied fs"
proof (induction js arbitrary: fs)
  case Nil
  show ?case by simp
next
  case (Cons i js)
  show ?case
  proof (cases "os_path_exists fs (backup_name i d)")
    case False
    then show ?thesis using Cons.IH [of fs] by simp
  next
    case True
    obtain out fs' where r: "os_rename fs (backup_name i d) (backup_name (i + 1) d) = (out, fs')"
      by (cases "os_rename fs (backup_name i d) (backup_name (i + 1) d)")
    have p: "cwd fs' = cwd fs" "denied fs' = denied fs"
      using os_rename_preserves [of fs "backup_name i d" "backup_name (i + 1) d"] r by simp_all
    show ?thesis
      using True r p Cons.IH [of fs'] by (cases out) simp_all
  qed
qed

lemma shift_backups_raises:
  "fst (shift_backups d js fs) = Raises e \<Longrightarrow> (\<exists>p. e = PermissionError p) \<and> denied fs \<noteq> {}"
proof (induction js arbitrary: fs)
  case Nil
  then show ?case by simp
next
  case (Cons i js)
  show ?case
  proof (cases "os_path_exists fs (backup_name i d)")
    case False
    then show ?thesis using Cons.IH [of fs] Cons.prems by simp
  next
    case True
    obtain out fs' where r: "os_rename fs (backup_name i d) (backup_name (i + 1) d) = (out, fs')"
      by (cases "os_rename fs (backup_name i d) (backup_name (i + 1) d)")
    have p: "denied fs' = denied fs"
      using os_rename_preserves [of fs "backup_name i d" "backup_name (i + 1) d"] r by simp
    show ?thesis
    proof (cases out)
      case (Returns u)
      then show ?thesis
        using True r p Cons.IH [of fs'] Cons.prems by simp
    next
      case (Raises e')
      then have "e' = e"
        using True r Cons.prems by simp
      moreover have "files fs (abspath fs (backup_name i d)) \<noteq> None"
        using True by (simp add: os_path_exists_def)
      ultimately show ?thesis
        using os_rename_raises [of fs "backup_name i d" "backup_name (i + 1) d" e] r Raises by auto
    qed
  qed
qed

lemma shift_backups_refused:
  "\<exists>j. 1 \<le> j \<and> j \<le> int n \<and> files fs (abspath fs (backup_name j d)) \<noteq> None
        \<and> (abspath fs (backup_name j d) \<in> denied fs \<or> abspath fs (backup_name (j + 1) d) \<in> denied fs)
   \<Longrightarrow> \<exists>p. fst (shift_backups d (rev [1..int n]) fs) = Raises (PermissionError p)"
proof (induction n arbitrary: fs)
  case 0
  then show ?case by auto
next
  case (Suc n)
  let ?bk = "\<lambda>fs j. abspath fs (backup_name j d)"
  define k where "k = int n + 1"
  have k: "int (Suc n) = k" "0 \<le> k" "int n = k - 1"
    by (simp_all add: k_def)
  have l: "rev [1..k] = k # rev [1..k - 1]"
    using rev_upto_Suc [of n] by (simp add: k_def add.commute)
  note ih = Suc.IH [unfolded k(3)]
  obtain j where j: "1 \<le> j" "j \<le> k" "files fs (?bk fs j) \<noteq> None"
      "?bk fs j \<in> denied fs \<or> ?bk fs (j + 1) \<in> denied fs"
    using Suc.prems unfolding k(1) by blast
  show ?case
  proof (cases "files fs (?bk fs k) = None")
    case True
    then have "j \<le> k - 1"
      using j by (cases "j = k") auto
    then have "\<exists>p. fst (shift_backups d (rev [1..k - 1]) fs) = Raises (PermissionError p)"
      using j by (intro ih) blast
    then show ?thesis
      unfolding k(1) l using True by (simp add: os_path_exists_def)
  next
    case False
    note ex = this
    show ?thesis
    proof (cases "?bk fs k \<in> denied fs \<or> ?bk fs (k + 1) \<in> denied fs")
      case True
      then have "fst (os_rename fs (backup_name k d) (backup_name (k + 1) d))
                   = Raises (PermissionError (backup_name k d))"
        using ex by (intro os_rename_refused)
      then obtain fs' where "os_rename fs (backup_name k d) (backup_name (k + 1) d)
                               = (Raises (PermissionError (backup_name k d)), fs')"
        by (cases "os_rename fs (backup_name k d) (backup_name (k + 1) d)") simp
      then show ?thesis
        unfolding k(1) l using ex by (simp add: os_path_exists_def)
    next
      case False
      then have jk: "j \<noteq> k"
        using j(4) by auto
      obtain x where x: "files fs (?bk fs k) = Some x"
        using ex by blast
      define fs1 where
        "fs1 = fs\<lparr>files := ((files fs)(?bk fs k := None))(?bk fs (k + 1) \<mapsto> x)\<rparr>"
      have rn: "os_rename fs (backup_name k d) (backup_name (k + 1) d) = (Returns (), fs1)"
        using x False by (simp add: os_rename_def Let_def fs1_def)
      have a1: "\<And>p. abspath fs1 p = abspath fs p"
        by (simp add: fs1_def abspath_files_update)
      have "?bk fs j \<noteq> ?bk fs k"
        using backup_path_inj [of j k fs d] j(1) k(2) jk by auto
      then have "files fs1 (?bk fs1 j) \<noteq> None"
        using j(3) by (simp add: a1) (simp add: fs1_def)
      moreover have "?bk fs1 j \<in> denied fs1 \<or> ?bk fs1 (j + 1) \<in> denied fs1"
        using j(4) by (simp add: a1) (simp add: fs1_def)
      moreover have "j \<le> k - 1"
        using j jk by simp
      ultimately have "\<exists>p. fst (shift_backups d (rev [1..k - 1]) fs1) = Raises (PermissionError p)"
        using j(1) by (intro ih) blast
      then show ?thesis
        unfolding k(1) l using ex rn by (simp add: os_path_exists_def)
    qed
  qed
qed

lemma stream_close_preserves:
  "cwd (stream_close st fs) = cwd fs \<and> denied (stream_close st fs) = denied fs
   \<and> (files (stream_close st fs) p = None) = (files fs p = None)"
  by (simp add: stream_close_def stream_flush_def split: option.splits)

lemma closed_fs_preserves:
  "cwd (closed_fs h fs) = cwd fs" "denied (closed_fs h fs) = denied fs"
  "(files (closed_fs h fs) p = None) = (files fs p = None)"
  using stream_close_preserves by (simp_all add: closed_fs_def split: option.splits)

lemma adopted_fields:
  "current_date (adopted today h) = today" "baseFilename (adopted today h) = baseFilename h"
  "backupCount (adopted today h) = backupCount h"
  by (simp_all add: adopted_def)

lemma doRollover_unfold:
  "doRollover today (h, fs) =
     (case shift_backups today (py_range_down (backupCount h)) (closed_fs h fs) of
        (Raises e, fs2) \<Rightarrow> (Raises e, adopted today h, fs2)
      | (Returns u, fs2) \<Rightarrow>
          (case (if os_path_exists fs2 (base_filename (adopted today h))
                 then os_rename fs2 (base_filename (adopted today h)) (backup_name 1 today)
                 else (Returns (), fs2)) of
             (Raises e, fs3) \<Rightarrow> (Raises e, adopted today h, fs3)
           | (Returns u, fs3) \<Rightarrow>
               (case handler_open (adopted today h, fs3) of
                  (Raises e, fs4) \<Rightarrow> (Raises e, adopted today h, fs4)
                | (Returns st, fs4) \<Rightarrow> (Returns (), (adopted today h)\<lparr>stream := Some st\<rparr>, fs4))))"
  by (cases "today \<noteq> current_date h")
     (simp_all add: doRollover_def closed_fs_def adopted_def Let_def
               split: prod.splits outcome.splits)

lemma handler_open_outcome:
  "fst (handler_open (h, fs)) =
     (if abspath fs (baseFilename h) \<in> denied fs then Raises (PermissionError (baseFilename h))
      else Returns \<lparr>spath = abspath fs (baseFilename h), sbuf = []\<rparr>)"
  by (simp add: handler_open_def open_append_def Let_def)

lemma doRollover_raises:
  assumes "fst (doRollover today (h, fs)) = Raises e"
  shows "(\<exists>p. e = PermissionError p) \<and> denied fs \<noteq> {}"
proof -
  let ?h2 = "adopted today h"
  obtain o2 fs2 where sh: "shift_backups today (py_range_down (backupCount h)) (closed_fs h fs) = (o2, fs2)"
    by (cases "shift_backups today (py_range_down (backupCount h)) (closed_fs h fs)")
  have p2: "denied fs2 = denied fs"
    using shift_backups_preserves [of today "py_range_down (backupCount h)" "closed_fs h fs"] sh
    by (simp add: closed_fs_preserves)
  show ?thesis
  proof (cases o2)
    case (Raises e')
    then have "e' = e"
      using assms sh by (simp add: doRollover_unfold)
    then show ?thesis
      using shift_backups_raises [of today "py_range_down (backupCount h)" "closed_fs h fs" e] sh Raises
      by (simp add: closed_fs_preserves)
  next
    case (Returns u)
    note r2 = this
    obtain o3 fs3 where rn:
      "(if os_path_exists fs2 (base_filename ?h2)
        then os_rename fs2 (base_filename ?h2) (backup_name 1 today)
        else (Returns (), fs2)) = (o3, fs3)"
      by (cases "if os_path_exists fs2 (base_filename ?h2)
                 then os_rename fs2 (base_filename ?h2) (backup_name 1 today)
                 else (Returns (), fs2)")
    have p3: "denied fs3 = denied fs"
      using rn p2 os_rename_preserves [of fs2 "base_filename ?h2" "backup_name 1 today"]
      by (auto split: if_splits)
    show ?thesis
    proof (cases o3)
      case (Raises e')
      then have e: "e' = e"
        using assms sh r2 rn by (simp add: doRollover_unfold)
      have ex: "os_path_exists fs2 (base_filename ?h2)"
        using rn Raises by (auto split: if_splits)
      then have "fst (os_rename fs2 (base_filename ?h2) (backup_name 1 today)) = Raises e"
        using rn Raises e by simp
      then show ?thesis
        using os_rename_raises [of fs2 "base_filename ?h2" "backup_name 1 today" e] ex p2
        by (simp add: os_path_exists_def)
    next
      case (Returns u')
      obtain o4 fs4 where op: "handler_open (?h2, fs3) = (o4, fs4)"
        by (cases "handler_open (?h2, fs3)")
      have "o4 = Raises e"
        using assms sh r2 rn Returns op by (cases o4) (simp_all add: doRollover_unfold)
      then show ?thesis
        using handler_open_outcome [of ?h2 fs3] op p3 by (auto split: if_splits)
    qed
  qed
qed

lemma doRollover_returns: "denied fs = {} \<Longrightarrow> fst (doRollover today (h, fs)) = Returns ()"
  using doRollover_raises [of today h fs] by (cases "fst (doRollover today (h, fs))") auto

lemma doRollover_reopen_refused:
  assumes "abspath fs (baseFilename h) \<in> denied fs"
  shows "\<exists>p. fst (doRollover today (h, fs)) = Raises (PermissionError p)"
proof (cases "fst (doRollover today (h, fs))")
  case (Raises e)
  then show ?thesis
    using doRollover_raises [of today h fs e] by auto
next
  case (Returns u)
  let ?h2 = "adopted today h"
  obtain o2 fs2 where sh: "shift_backups today (py_range_down (backupCount h)) (closed_fs h fs) = (o2, fs2)"
    by (cases "shift_backups today (py_range_down (backupCount h)) (closed_fs h fs)")
  have p2: "denied fs2 = denied fs" "cwd fs2 = cwd fs"
    using shift_backups_preserves [of today "py_range_down (backupCount h)" "closed_fs h fs"] sh
    by (simp_all add: closed_fs_preserves)
  obtain o3 fs3 where rn:
    "(if os_path_exists fs2 (base_filename ?h2)
      then os_rename fs2 (base_filename ?h2) (backup_name 1 today)
      else (Returns (), fs2)) = (o3, fs3)"
    by (cases "if os_path_exists fs2 (base_filename ?h2)
               then os_rename fs2 (base_filename ?h2) (backup_name 1 today)
               else (Returns (), fs2)")
  have p3: "denied fs3 = denied fs" "cwd fs3 = cwd fs"
    using rn p2 os_rename_preserves [of fs2 "base_filename ?h2" "backup_name 1 today"]
    by (auto split: if_splits)
  have "abspath fs3 (baseFilename ?h2) = abspath fs (baseFilename h)"
    using abspath_cwd [OF p3(2)] by (simp add: adopted_fields)
  then have "fst (handler_open (?h2, fs3)) = Raises (PermissionError (baseFilename h))"
    using assms p3(1) by (simp add: handler_open_outcome adopted_fields)
  then obtain fs4 where "handler_open (?h2, fs3) = (Raises (PermissionError (baseFilename h)), fs4)"
    by (cases "handler_open (?h2, fs3)") simp
  then have "\<exists>e. fst (doRollover today (h, fs)) = Raises e"
    using sh rn by (cases o2; cases o3) (simp_all add: doRollover_unfold)
  with Returns show ?thesis by simp
qed

lemma doRollover_rename_refused:
  assumes "1 \<le> j" and "j < backupCount h"
    and "files fs (abspath fs (backup_name j today)) \<noteq> None"
    and "abspath fs (backup_name j today) \<in> denied fs
         \<or> abspath fs (backup_name (j + 1) today) \<in> denied fs"
  shows "\<exists>p. fst (doRollover today (h, fs)) = Raises (PermissionError p)"
proof -
  let ?fs1 = "closed_fs h fs"
  have a1: "\<And>p. abspath ?fs1 p = abspath fs p"
    using closed_fs_preserves(1) by (rule abspath_cwd)
  have "1 \<le> j \<and> j \<le> int (nat (backupCount h - 1))
        \<and> files ?fs1 (abspath ?fs1 (backup_name j today)) \<noteq> None
        \<and> (abspath ?fs1 (backup_name j today) \<in> denied ?fs1
           \<or> abspath ?fs1 (backup_name (j + 1) today) \<in> denied ?fs1)"
    using assms by (simp add: a1 closed_fs_preserves)
  then have "\<exists>p. fst (shift_backups today (rev [1..int (nat (backupCount h - 1))]) ?fs1)
                 = Raises (PermissionError p)"
    by (intro shift_backups_refused) blast
  then obtain p fs2 where
    "shift_backups today (py_range_down (backupCount h)) ?fs1 = (Raises (PermissionError p), fs2)"
    unfolding py_range_down_nat
    by (cases "shift_backups today (rev [1..int (nat (backupCount h - 1))]) ?fs1") auto
  then show ?thesis
    by (simp add: doRollover_unfold)
qed

lemma shouldRollover_no_stream:
  "stream h = None \<Longrightarrow> shouldRollover today r (h, fs) = (Raises AttributeError, h, fs)"
  by (simp add: shouldRollover_def)

lemma shouldRollover_file_missing:
  "stream h = Some st \<Longrightarrow> files fs (abspath fs (baseFilename h)) = None \<Longrightarrow>
   fst (shouldRollover today r (h, fs)) = Raises (FileNotFoundError (baseFilename h))"
  by (auto simp: shouldRollover_def stream_flush_def os_path_getsize_def abspath_files_update Let_def
           split: option.splits)

lemma shouldRollover_file_present:
  assumes "stream h = Some st" and "files fs (abspath fs (baseFilename h)) = Some c"
  shows "\<exists>b h1 fs1. shouldRollover today r (h, fs) = (Returns b, h1, fs1)
           \<and> (maxBytes h \<le> int (length c) \<or> today \<noteq> current_date h \<longrightarrow> b)
           \<and> stream h1 \<noteq> None \<and> baseFilename h1 = baseFilename h \<and> backupCount h1 = backupCount h
           \<and> cwd fs1 = cwd fs \<and> denied fs1 = denied fs
           \<and> (\<forall>p. (files fs1 p = None) = (files fs p = None))"
proof -
  define fs1 where
    "fs1 = (case files fs (spath st) of
              None \<Rightarrow> fs
            | Some content \<Rightarrow> fs\<lparr>files := (files fs)(spath st \<mapsto> content @ sbuf st)\<rparr>)"
  define h1 where "h1 = h\<lparr>stream := Some (st\<lparr>sbuf := []\<rparr>)\<rparr>"
  define h1' where
    "h1' = h1\<lparr>current_date := today,
              base_filename := py_replace (baseFilename h1) (last_segment (baseFilename h1))
                                 (today @ ''.txt'')\<rparr>"
  have p: "cwd fs1 = cwd fs" "denied fs1 = denied fs" "\<forall>p. (files fs1 p = None) = (files fs p = None)"
    by (simp_all add: fs1_def split: option.splits)
  have "files fs1 (abspath fs (baseFilename h)) = Some c
        \<or> files fs1 (abspath fs (baseFilename h)) = Some (c @ sbuf st)"
    using assms(2) by (auto simp: fs1_def split: option.splits)
  then obtain c' where c': "files fs1 (abspath fs (baseFilename h)) = Some c'"
    and l: "length c \<le> length c'"
    by auto
  have "abspath fs1 (baseFilename h) = abspath fs (baseFilename h)"
    using p(1) by (rule abspath_cwd)
  then have gs: "os_path_getsize fs1 (baseFilename h1) = Returns (length c')"
    using c' by (simp add: os_path_getsize_def h1_def)
  have sr: "shouldRollover today r (h, fs) =
              (if maxBytes h \<le> int (length c') then (Returns True, h1, fs1)
               else if today \<noteq> current_date h then (Returns True, h1', fs1)
               else (Returns False, h1, fs1))"
    using assms(1) gs unfolding fs1_def h1'_def h1_def
    by (simp add: shouldRollover_def Let_def stream_flush_def)
  have f: "stream h1 \<noteq> None" "baseFilename h1 = baseFilename h" "backupCount h1 = backupCount h"
    "stream h1' \<noteq> None" "baseFilename h1' = baseFilename h" "backupCount h1' = backupCount h"
    by (simp_all add: h1_def h1'_def)
  show ?thesis
  proof (cases "maxBytes h \<le> int (length c')")
    case True
    then show ?thesis
      using sr p f by auto
  next
    case False
    then have n: "\<not> maxBytes h \<le> int (length c)"
      using l by simp
    show ?thesis
    proof (cases "today \<noteq> current_date h")
      case True
      then show ?thesis
        using sr False p f by auto
    next
      case False
      then show ?thesis
        using sr n \<open>\<not> maxBytes h \<le> int (length c')\<close> p f by auto
    qed
  qed
qed

lemma emit_returns:
  assumes "stream h \<noteq> None" and "files fs (abspath fs (baseFilename h)) \<noteq> None"
    and "denied fs = {}"
  shows "fst (emit today r (h, fs)) = Returns ()"
proof -
  obtain st c where "stream h = Some st" "files fs (abspath fs (baseFilename h)) = Some c"
    using assms(1,2) by blast
  then obtain b h1 fs1 where sr: "shouldRollover today r (h, fs) = (Returns b, h1, fs1)"
    and d: "denied fs1 = denied fs"
    using shouldRollover_file_present [of h st fs c today r] by blast
  have dr: "fst (doRollover today (h1, fs1)) = Returns ()"
    using d assms(3) by (intro doRollover_returns) simp
  obtain s2 where "doRollover today (h1, fs1) = (Returns (), s2)"
    using dr by (cases "doRollover today (h1, fs1)") simp
  then show ?thesis
    by (cases b) (simp_all add: emit_def sr inherited_emit_returns)
qed

text \<open>
  C2, amended. \<open>emit\<close> raises \<open>AttributeError\<close> when the handler has no stream, and
  \<open>FileNotFoundError\<close> when the stream is open and the active file is missing (get-size
  fails). When the check is true (the file on disk has reached \<open>maxBytes\<close>, or the date has
  changed) it raises \<open>PermissionError\<close> if the rename of an existing backup \<open>j\<close> of today,
  \<open>1 \<le> j < backupCount\<close>, is refused, and also if the path of the active file is refused
  (the rename of that file or else the reopen fails). With the stream open, the active
  file present and no path refused it returns; and the inherited \<open>emit\<close> never raises.
\<close>

theorem emit_failures:
  "(stream h = None \<longrightarrow> fst (emit today r (h, fs)) = Raises AttributeError)
   \<and> (stream h = Some st \<and> files fs (abspath fs (baseFilename h)) = None
        \<longrightarrow> fst (emit today r (h, fs)) = Raises (FileNotFoundError (baseFilename h)))
   \<and> (stream h = Some st \<and> files fs (abspath fs (baseFilename h)) = Some c
        \<and> (maxBytes h \<le> int (length c) \<or> today \<noteq> current_date h)
        \<and> 1 \<le> j \<and> j < backupCount h \<and> files fs (abspath fs (backup_name j today)) \<noteq> None
        \<and> (abspath fs (backup_name j today) \<in> denied fs
           \<or> abspath fs (backup_name (j + 1) today) \<in> denied fs)
        \<longrightarrow> (\<exists>p. fst (emit today r (h, fs)) = Raises (PermissionError p)))
   \<and> (stream h = Some st \<and> files fs (abspath fs (baseFilename h)) = Some c
        \<and> (maxBytes h \<le> int (length c) \<or> today \<noteq> current_date h)
        \<and> abspath fs (baseFilename h) \<in> denied fs
        \<longrightarrow> (\<exists>p. fst (emit today r (h, fs)) = Raises (PermissionError p)))
   \<and> (stream h = Some st \<and> files fs (abspath fs (baseFilename h)) = Some c \<and> denied fs = {}
        \<longrightarrow> fst (emit today r (h, fs)) = Returns ())
   \<and> fst (BaseRotatingHandler_emit today r (h, fs)) = Returns ()"
proof -
  have c1: "fst (emit today r (h, fs)) = Raises AttributeError" if q: "stream h = None"
    using q by (simp add: emit_def shouldRollover_no_stream)
  have c2: "fst (emit today r (h, fs)) = Raises (FileNotFoundError (baseFilename h))"
    if q: "stream h = Some st" "files fs (abspath fs (baseFilename h)) = None"
  proof -
    obtain s1 where "shouldRollover today r (h, fs) = (Raises (FileNotFoundError (baseFilename h)), s1)"
      using shouldRollover_file_missing [OF q, of today r]
      by (cases "shouldRollover today r (h, fs)") simp
    then show ?thesis by (simp add: emit_def)
  qed
  have due: "\<exists>h1 fs1. shouldRollover today r (h, fs) = (Returns True, h1, fs1)
               \<and> baseFilename h1 = baseFilename h \<and> backupCount h1 = backupCount h
               \<and> cwd fs1 = cwd fs \<and> denied fs1 = denied fs
               \<and> (\<forall>p. (files fs1 p = None) = (files fs p = None))"
    if q: "stream h = Some st" "files fs (abspath fs (baseFilename h)) = Some c"
       "maxBytes h \<le> int (length c) \<or> today \<noteq> current_date h"
    using shouldRollover_file_present [OF q(1,2), of today r] q(3) by auto
  have rot: "\<exists>p. fst (emit today r (h, fs)) = Raises (PermissionError p)"
    if q: "shouldRollover today r (h, fs) = (Returns True, h1, fs1)"
       "\<exists>p. fst (doRollover today (h1, fs1)) = Raises (PermissionError p)" for h1 fs1
  proof -
    obtain p s2 where "doRollover today (h1, fs1) = (Raises (PermissionError p), s2)"
      using q(2) by (cases "doRollover today (h1, fs1)") auto
    then show ?thesis
      using q(1) by (simp add: emit_def)
  qed
  have c3: "\<exists>p. fst (emit today r (h, fs)) = Raises (PermissionError p)"
    if q: "stream h = Some st" "files fs (abspath fs (baseFilename h)) = Some c"
       "maxBytes h \<le> int (length c) \<or> today \<noteq> current_date h"
       "1 \<le> j" "j < backupCount h" "files fs (abspath fs (backup_name j today)) \<noteq> None"
       "abspath fs (backup_name j today) \<in> denied fs
        \<or> abspath fs (backup_name (j + 1) today) \<in> denied fs"
  proof -
    obtain h1 fs1 where sr: "shouldRollover today r (h, fs) = (Returns True, h1, fs1)"
      and k: "backupCount h1 = backupCount h" "cwd fs1 = cwd fs" "denied fs1 = denied fs"
        "\<forall>p. (files fs1 p = None) = (files fs p = None)"
      using due [OF q(1,2,3)] by blast
    have a: "\<And>p. abspath fs1 p = abspath fs p"
      using k(2) by (rule abspath_cwd)
    have "\<exists>p. fst (doRollover today (h1, fs1)) = Raises (PermissionError p)"
      using q(4,5,6,7) k by (intro doRollover_rename_refused [of j]) (simp_all add: a)
    with sr show ?thesis by (rule rot)
  qed
  have c4: "\<exists>p. fst (emit today r (h, fs)) = Raises (PermissionError p)"
    if q: "stream h = Some st" "files fs (abspath fs (baseFilename h)) = Some c"
       "maxBytes h \<le> int (length c) \<or> today \<noteq> current_date h"
       "abspath fs (baseFilename h) \<in> denied fs"
  proof -
    obtain h1 fs1 where sr: "shouldRollover today r (h, fs) = (Returns True, h1, fs1)"
      and k: "baseFilename h1 = baseFilename h" "cwd fs1 = cwd fs" "denied fs1 = denied fs"
      using due [OF q(1,2,3)] by blast
    have a: "\<And>p. abspath fs1 p = abspath fs p"
      using k(2) by (rule abspath_cwd)
    have "\<exists>p. fst (doRollover today (h1, fs1)) = Raises (PermissionError p)"
      using q(4) k by (intro doRollover_reopen_refused) (simp add: a)
    with sr show ?thesis by (rule rot)
  qed
  have c5: "fst (emit today r (h, fs)) = Returns ()"
    if q: "stream h = Some st" "files fs (abspath fs (baseFilename h)) = Some c" "denied fs = {}"
    using q by (intro emit_returns) simp_all
  show ?thesis
    using c1 c2 c3 c4 c5 inherited_emit_returns [of today r "(h, fs)"] by blast
qed

text \<open>
  The four outcomes on the handler \<open>h_buffered\<close>: no stream; the log file removed; the name
  of backup 3 refused while backup 2 exists; nothing refused.
\<close>

theorem emit_failures_witness:
  "stream (h_buffered\<lparr>stream := None\<rparr>) = None
   \<and> fst (emit ''2024-01-01'' rec_hello (h_buffered\<lparr>stream := None\<rparr>, fs_rot)) = Raises AttributeError
   \<and> stream h_buffered = Some \<lparr>spath = ''/app/system_logs_2024-01-01.txt'', sbuf = ''wxyz''\<rparr>
   \<and> files fs_unlinked (abspath fs_unlinked (baseFilename h_buffered)) = None
   \<and> fst (emit ''2024-01-01'' rec_hello (h_buffered, fs_unlinked))
       = Raises (FileNotFoundError ''/app/system_logs_2024-01-01.txt'')
   \<and> files fs_denied (abspath fs_denied (baseFilename (h_buffered\<lparr>maxBytes := 4\<rparr>))) = Some ''abcde''
   \<and> maxBytes (h_buffered\<lparr>maxBytes := 4\<rparr>) \<le> int (length ''abcde'')
   \<and> 2 < backupCount (h_buffered\<lparr>maxBytes := 4\<rparr>)
   \<and> files fs_denied (abspath fs_denied (backup_name 2 ''2024-01-01'')) = Some ''old2''
   \<and> abspath fs_denied (backup_name (2 + 1) ''2024-01-01'') \<in> denied fs_denied
   \<and> fst (emit ''2024-01-01'' rec_hello (h_buffered\<lparr>maxBytes := 4\<rparr>, fs_denied))
       = Raises (PermissionError ''system_logs_2_2024-01-01.txt'')
   \<and> files fs_rot (abspath fs_rot (baseFilename h_buffered)) = Some ''abcde''
   \<and> denied fs_rot = {}
   \<and> fst (emit ''2024-01-01'' rec_hello (h_buffered, fs_rot)) = Returns ()"
proof -
  let ?st = "\<lparr>spath = ''/app/system_logs_2024-01-01.txt'', sbuf = ''wxyz''\<rparr>"
  let ?h4 = "h_buffered\<lparr>maxBytes := 4\<rparr>"
  have n: "stream (h_buffered\<lparr>stream := None\<rparr>) = None"
    by simp
  have s: "stream h_buffered = Some ?st" "stream ?h4 = Some ?st"
    by (simp_all add: h_buffered_def)
  have u: "files fs_unlinked (abspath fs_unlinked (baseFilename h_buffered)) = None"
    by (simp add: fs_unlinked_def)
  have b: "baseFilename h_buffered = ''/app/system_logs_2024-01-01.txt''"
    by (simp add: h_buffered_def)
  have d: "files fs_denied (abspath fs_denied (baseFilename ?h4)) = Some ''abcde''"
    "maxBytes ?h4 \<le> int (length ''abcde'') \<or> ''2024-01-01'' \<noteq> current_date ?h4"
    "(1::int) \<le> 2" "2 < backupCount ?h4"
    "files fs_denied (abspath fs_denied (backup_name 2 ''2024-01-01'')) \<noteq> None"
    "abspath fs_denied (backup_name 2 ''2024-01-01'') \<in> denied fs_denied
     \<or> abspath fs_denied (backup_name (2 + 1) ''2024-01-01'') \<in> denied fs_denied"
    by (simp_all add: h_buffered_def fs_denied_def fs_rot_def abspath_def backup_name_def
          str_int_def str_nat_digits)
  have d': "files fs_denied (abspath fs_denied (backup_name 2 ''2024-01-01'')) = Some ''old2''"
    "abspath fs_denied (backup_name (2 + 1) ''2024-01-01'') \<in> denied fs_denied"
    "maxBytes ?h4 \<le> int (length ''abcde'')"
    by (simp_all add: h_buffered_def fs_denied_def fs_rot_def abspath_def backup_name_def
          str_int_def str_nat_digits)
  have o: "files fs_rot (abspath fs_rot (baseFilename h_buffered)) = Some ''abcde''" "denied fs_rot = {}"
    by (simp_all add: h_buffered_def fs_rot_def abspath_def)
  have w1: "fst (emit ''2024-01-01'' rec_hello (h_buffered\<lparr>stream := None\<rparr>, fs_rot)) = Raises AttributeError"
    using emit_failures [of "h_buffered\<lparr>stream := None\<rparr>" "''2024-01-01''" rec_hello fs_rot] n
    by blast
  have w2: "fst (emit ''2024-01-01'' rec_hello (h_buffered, fs_unlinked))
              = Raises (FileNotFoundError ''/app/system_logs_2024-01-01.txt'')"
    using emit_failures [of h_buffered "''2024-01-01''" rec_hello fs_unlinked ?st] s(1) u b
    by simp
  have "\<exists>p. fst (emit ''2024-01-01'' rec_hello (?h4, fs_denied)) = Raises (PermissionError p)"
    using emit_failures [of ?h4 "''2024-01-01''" rec_hello fs_denied ?st "''abcde''" 2] s(2) d
    by blast
  moreover have "\<And>p. fst (emit ''2024-01-01'' rec_hello (?h4, fs_denied)) = Raises (PermissionError p)
                   \<Longrightarrow> p = ''system_logs_2_2024-01-01.txt''"
    by (simp add: h_buffered_def fs_denied_def fs_rot_def handler_defs
          str_nat_digits str_nat_Suc_0 Let_def upto.simps)
  ultimately have w3: "fst (emit ''2024-01-01'' rec_hello (?h4, fs_denied))
                         = Raises (PermissionError ''system_logs_2_2024-01-01.txt'')"
    by blast
  have w5: "fst (emit ''2024-01-01'' rec_hello (h_buffered, fs_rot)) = Returns ()"
    using emit_failures [of h_buffered "''2024-01-01''" rec_hello fs_rot ?st "''abcde''"] s(1) o
    by blast
  show ?thesis
    using n s(1) u d(1) d'(3) d(4) d'(1,2) o w1 w2 w3 w5 by simp
qed

subsection \<open>A change of date between two writes\<close>

lemma prefix_before_char:
  "prefix xs (u @ c # v) \<Longrightarrow> c \<notin> set xs \<Longrightarrow> prefix xs u"
proof (induction u arbitrary: xs)
  case Nil
  then show ?case by (cases xs) auto
next
  case (Cons a u)
  then show ?case by (cases xs) auto
qed

lemma replace_scan_split:
  "old \<noteq> [] \<Longrightarrow> c \<notin> set old \<Longrightarrow>
   replace_scan old new (u @ c # v) = replace_scan old new u @ c # replace_scan old new v"
proof (induction old new u rule: replace_scan.induct)
  case (1 old new)
  then show ?case by (cases old) auto
next
  case (2 old new a u)
  show ?case
  proof (cases "prefix old (a # u)")
    case True
    then have l: "length old \<le> length (a # u)"
      by (rule prefix_length_le)
    have p: "prefix old ((a # u) @ c # v)"
      using True by (rule prefix_prefix)
    have "replace_scan old new (drop (length old) (a # u) @ c # v)
            = replace_scan old new (drop (length old) (a # u)) @ c # replace_scan old new v"
      using "2.prems" True by (intro "2.IH"(1)) simp_all
    moreover have "\<And>xs. length old \<le> length xs \<Longrightarrow>
                     drop (length old) (xs @ c # v) = drop (length old) xs @ c # v"
      by simp
    from this [OF l] have "drop (length old) ((a # u) @ c # v) = drop (length old) (a # u) @ c # v" .
    ultimately show ?thesis
      using True p "2.prems"(1) by simp
  next
    case False
    then have n: "\<not> prefix old ((a # u) @ c # v)"
      using prefix_before_char [of old "a # u" c v] "2.prems"(2) by blast
    have "replace_scan old new (u @ c # v) = replace_scan old new u @ c # replace_scan old new v"
      using "2.prems" False by (intro "2.IH"(2)) simp_all
    then show ?thesis
      using False n by simp
  qed
qed

lemma replace_scan_self: "old \<noteq> [] \<Longrightarrow> replace_scan old new old = new"
  by (cases old) simp_all

lemma last_segment_append:
  "CHR ''_'' \<notin> set v \<Longrightarrow> last_segment (u @ CHR ''_'' # v) = v"
proof -
  assume v: "CHR ''_'' \<notin> set v"
  have "takeWhile (\<lambda>c. c \<noteq> CHR ''_'') (rev v @ CHR ''_'' # rev u)
          = rev v @ takeWhile (\<lambda>c. c \<noteq> CHR ''_'') (CHR ''_'' # rev u)"
    using v by (intro takeWhile_append2) auto
  then show ?thesis
    by (simp add: last_segment_def)
qed

lemma abspath_relative_form: "\<not> is_absolute p \<Longrightarrow> \<exists>X. abspath fs p = X @ p"
  by (auto simp: abspath_def is_absolute_def)

lemma last_segment_abspath:
  assumes "CHR ''_'' \<in> set p"
  shows "last_segment (abspath fs p) = last_segment p"
proof -
  obtain a b where p: "p = a @ CHR ''_'' # b" and b: "CHR ''_'' \<notin> set b"
    using split_list_last [OF assms] by blast
  have "abspath fs p = p \<or> (\<exists>X. abspath fs p = X @ p)"
    by (auto simp: abspath_def)
  then obtain X where x: "abspath fs p = (X @ a) @ CHR ''_'' # b"
    using p by (metis append_Nil append_assoc)
  have "last_segment ((X @ a) @ CHR ''_'' # b) = b"
    using b by (rule last_segment_append)
  moreover have "last_segment (a @ CHR ''_'' # b) = b"
    using b by (rule last_segment_append)
  ultimately show ?thesis
    unfolding x unfolding p by simp
qed

lemma backup_name_form: "backup_name j d = (''system_logs_'' @ str_int j) @ CHR ''_'' # (d @ ''.txt'')"
  by (simp add: backup_name_def)

lemma last_segment_backup:
  assumes "CHR ''_'' \<notin> set d"
  shows "last_segment (abspath fs (backup_name j d)) = d @ ''.txt''"
proof -
  have u: "CHR ''_'' \<notin> set (d @ ''.txt'')"
    using assms by simp
  have "CHR ''_'' \<in> set (backup_name j d)"
    by (simp add: backup_name_def)
  then have "last_segment (abspath fs (backup_name j d)) = last_segment (backup_name j d)"
    by (rule last_segment_abspath)
  also have "\<dots> = d @ ''.txt''"
    unfolding backup_name_form using u by (rule last_segment_append)
  finally show ?thesis .
qed

lemma base_name_form: "''system_logs_'' @ d @ ''.txt'' = ''system_logs'' @ CHR ''_'' # (d @ ''.txt'')"
  by simp

lemma last_segment_base:
  assumes "CHR ''_'' \<notin> set d"
  shows "last_segment (abspath fs (''system_logs_'' @ d @ ''.txt'')) = d @ ''.txt''"
proof -
  have u: "CHR ''_'' \<notin> set (d @ ''.txt'')"
    using assms by simp
  have "CHR ''_'' \<in> set (''system_logs_'' @ d @ ''.txt'')"
    by simp
  then have "last_segment (abspath fs (''system_logs_'' @ d @ ''.txt''))
               = last_segment (''system_logs_'' @ d @ ''.txt'')"
    by (rule last_segment_abspath)
  also have "\<dots> = d @ ''.txt''"
    unfolding base_name_form using u by (rule last_segment_append)
  finally show ?thesis .
qed

lemma new_base_filename:
  assumes "CHR ''_'' \<notin> set d1" and "CHR ''_'' \<notin> set d2"
    and "bf = abspath fs (''system_logs_'' @ d1 @ ''.txt'')"
  shows "\<exists>u. py_replace bf (last_segment bf) (d2 @ ''.txt'') = u @ CHR ''_'' # (d2 @ ''.txt'')"
proof -
  let ?old = "d1 @ ''.txt''"
  have o: "CHR ''_'' \<notin> set ?old" "?old \<noteq> []"
    using assms(1) by simp_all
  have ls: "last_segment bf = ?old"
    unfolding assms(3) using assms(1) by (rule last_segment_base)
  have "\<not> is_absolute (''system_logs_'' @ d1 @ ''.txt'')"
    by (simp add: is_absolute_def)
  then obtain X where "bf = X @ ''system_logs_'' @ d1 @ ''.txt''"
    unfolding assms(3) using abspath_relative_form by blast
  then have bf: "bf = (X @ ''system_logs'') @ CHR ''_'' # ?old"
    by simp
  have "py_replace bf ?old (d2 @ ''.txt'') = replace_scan ?old (d2 @ ''.txt'') bf"
    by (simp add: py_replace_def)
  also have "\<dots> = replace_scan ?old (d2 @ ''.txt'') (X @ ''system_logs'')
                      @ CHR ''_'' # replace_scan ?old (d2 @ ''.txt'') ?old"
    unfolding bf using o(2,1) by (rule replace_scan_split)
  also have "replace_scan ?old (d2 @ ''.txt'') ?old = d2 @ ''.txt''"
    using o(2) by (rule replace_scan_self)
  finally show ?thesis
    unfolding ls by blast
qed

lemma doRollover_other_date:
  assumes "denied fs = {}" and "stream h = Some st" and "spath st = baseFilename h"
    and "abspath fs (baseFilename h) = baseFilename h" and "files fs (baseFilename h) = Some c"
    and "current_date h = d2" and "CHR ''_'' \<notin> set d2"
    and "base_filename h = u @ CHR ''_'' # (d2 @ ''.txt'')"
    and "last_segment (baseFilename h) \<noteq> d2 @ ''.txt''"
  shows "\<exists>fs'. doRollover d2 (h, fs)
                 = (Returns (), h\<lparr>stream := Some \<lparr>spath = baseFilename h, sbuf = []\<rparr>\<rparr>, fs')
              \<and> cwd fs' = cwd fs \<and> denied fs' = {}
              \<and> files fs' (baseFilename h) = Some (c @ sbuf st)
              \<and> (\<forall>p. last_segment p \<noteq> d2 @ ''.txt'' \<and> p \<noteq> baseFilename h
                    \<longrightarrow> files fs' p = files fs p)"
proof -
  let ?bf = "baseFilename h"
  let ?bn = "abspath fs (base_filename h)"
  let ?bk = "\<lambda>j. abspath fs (backup_name j d2)"
  define fs1 where "fs1 = fs\<lparr>files := (files fs)(?bf \<mapsto> c @ sbuf st)\<rparr>"
  define n where "n = nat (backupCount h - 1)"
  define fs2 where "fs2 = snd (shift_backups d2 (rev [1..int n]) fs1)"
  define fs3 where
    "fs3 = (case files fs2 ?bn of
              None \<Rightarrow> fs2
            | Some x \<Rightarrow> fs2\<lparr>files := ((files fs2)(?bn := None))(?bk 1 \<mapsto> x)\<rparr>)"
  have pr: "py_range_down (backupCount h) = rev [1..int n]"
    unfolding n_def by (rule py_range_down_nat)
  have lb: "\<And>j. last_segment (?bk j) = d2 @ ''.txt''"
    using assms(7) by (rule last_segment_backup)
  have ln: "last_segment ?bn = d2 @ ''.txt''"
  proof -
    have "CHR ''_'' \<in> set (base_filename h)"
      by (simp add: assms(8))
    then have "last_segment ?bn = last_segment (base_filename h)"
      by (rule last_segment_abspath)
    also have "\<dots> = d2 @ ''.txt''"
      unfolding assms(8) using assms(7) by (intro last_segment_append) simp
    finally show ?thesis .
  qed
  have nb: "\<And>j. ?bf \<noteq> ?bk j" and nn: "?bf \<noteq> ?bn"
    using lb ln assms(9) by auto
  have close: "stream_close st fs = fs1"
    using assms(3,5) by (simp add: stream_close_def stream_flush_def fs1_def)
  have d1: "denied fs1 = {}" and c1: "cwd fs1 = cwd fs"
    using assms(1) by (simp_all add: fs1_def)
  have a1: "\<And>p. abspath fs1 p = abspath fs p"
    using c1 by (rule abspath_cwd)
  note sh = shift_backups_desc [OF d1, of d2 n, unfolded a1, folded fs2_def]
  have shift: "shift_backups d2 (rev [1..int n]) fs1 = (Returns (), fs2)"
    using sh by (simp add: fs2_def prod_eq_iff)
  have d2: "denied fs2 = {}" and c2: "cwd fs2 = cwd fs"
    using sh c1 by simp_all
  have a2: "\<And>p. abspath fs2 p = abspath fs p"
    using c2 by (rule abspath_cwd)
  have f2: "\<And>p. last_segment p \<noteq> d2 @ ''.txt'' \<Longrightarrow> files fs2 p = files fs1 p"
  proof -
    fix p
    assume "last_segment p \<noteq> d2 @ ''.txt''"
    then have "\<forall>j. 1 \<le> j \<and> j \<le> int n + 1 \<longrightarrow> p \<noteq> ?bk j"
      using lb by auto
    then show "files fs2 p = files fs1 p"
      using sh by blast
  qed
  have rn: "(if os_path_exists fs2 (base_filename h)
             then os_rename fs2 (base_filename h) (backup_name 1 d2)
             else (Returns (), fs2)) = (Returns (), fs3)"
    using d2 by (auto simp: os_path_exists_def os_rename_def a2 fs3_def Let_def split: option.splits)
  have d3: "denied fs3 = {}" and c3: "cwd fs3 = cwd fs"
    using d2 c2 by (simp_all add: fs3_def split: option.splits)
  have f3: "\<And>p. last_segment p \<noteq> d2 @ ''.txt'' \<Longrightarrow> files fs3 p = files fs1 p"
  proof -
    fix p
    assume p: "last_segment p \<noteq> d2 @ ''.txt''"
    then have "p \<noteq> ?bn" "p \<noteq> ?bk 1"
      using ln lb by auto
    then have "files fs3 p = files fs2 p"
      by (simp add: fs3_def split: option.splits)
    with f2 [OF p] show "files fs3 p = files fs1 p"
      by simp
  qed
  have b3: "files fs3 ?bf = Some (c @ sbuf st)"
    using f3 [OF assms(9)] by (simp add: fs1_def)
  have "abspath fs3 ?bf = abspath fs ?bf"
    using c3 by (rule abspath_cwd)
  then have "abspath fs3 ?bf = ?bf"
    using assms(4) by simp
  then have op: "handler_open (h\<lparr>stream := None\<rparr>, fs3) = (Returns \<lparr>spath = ?bf, sbuf = []\<rparr>, fs3)"
    using d3 b3 by (simp add: handler_open_def open_append_def Let_def)
  have res: "doRollover d2 (h, fs) = (Returns (), h\<lparr>stream := Some \<lparr>spath = ?bf, sbuf = []\<rparr>\<rparr>, fs3)"
    using assms(2,6) close shift rn op
    by (cases "os_path_exists fs2 (base_filename h)") (simp_all add: doRollover_def Let_def pr)
  have "\<forall>p. last_segment p \<noteq> d2 @ ''.txt'' \<and> p \<noteq> ?bf \<longrightarrow> files fs3 p = files fs p"
    using f3 by (simp add: fs1_def)
  then show ?thesis
    using res c3 d3 b3 by blast
qed

lemma inherited_emit_appends:
  assumes "stream h = Some st" and "spath st = baseFilename h"
    and "abspath fs (baseFilename h) = baseFilename h" and "files fs (baseFilename h) = Some c"
    and "int (length c + length (sbuf st)) < maxBytes h" and "current_date h = today"
  shows "\<exists>line h' fs'. BaseRotatingHandler_emit today r (h, fs) = (Returns (), h', fs')
           \<and> current_date h' = today \<and> base_filename h' = base_filename h
           \<and> files fs' = (files fs)(baseFilename h \<mapsto> c @ sbuf st @ line)"
proof -
  let ?line = "(case formatter h of None \<Rightarrow> msg r | Some f \<Rightarrow> f r) @ [CHR 0x0A]"
  have "BaseRotatingHandler_emit today r (h, fs)
          = (Returns (), h\<lparr>stream := Some (st\<lparr>sbuf := []\<rparr>)\<rparr>,
             fs\<lparr>files := (files fs)(baseFilename h \<mapsto> c @ sbuf st @ ?line)\<rparr>)"
    using assms
    by (simp add: BaseRotatingHandler_emit_def handleError_def shouldRollover_def FileHandler_emit_def
          StreamHandler_emit_def stream_flush_def stream_write_def os_path_getsize_def Let_def
          abspath_files_update)
  then show ?thesis
    using assms(6) by auto
qed

text \<open>
  C1, amended. A handler built for the date \<open>d1\<close> has its stream open on its active file,
  no path is denied, and a write arrives on another date \<open>d2\<close> with the size below
  \<open>maxBytes\<close>. Then the rollover check is true, the write returns, the handler's
  \<open>current_date\<close> is \<open>d2\<close> and its \<open>base_filename\<close> ends in \<open>_d2.txt\<close>; the active file of
  \<open>d1\<close> is still there under its own name with all it held, every file whose name does not
  end in \<open>_d2.txt\<close> is untouched, and so nothing is put under the name of backup 1 of
  \<open>d1\<close>.
\<close>

theorem date_change_rotation:
  assumes "denied fs = {}" and "is_absolute (cwd fs)"
    and "stream h = Some st" and "spath st = baseFilename h"
    and "current_date h = d1" and "base_filename h = ''system_logs_'' @ d1 @ ''.txt''"
    and "baseFilename h = abspath fs (base_filename h)"
    and "files fs (baseFilename h) = Some c"
    and "int (length c + length (sbuf st)) < maxBytes h"
    and "d2 \<noteq> d1" and "CHR ''_'' \<notin> set d1" and "CHR ''_'' \<notin> set d2"
  shows "fst (shouldRollover d2 r (h, fs)) = Returns True
       \<and> fst (emit d2 r (h, fs)) = Returns ()
       \<and> current_date (fst (snd (emit d2 r (h, fs)))) = d2
       \<and> last_segment (base_filename (fst (snd (emit d2 r (h, fs))))) = d2 @ ''.txt''
       \<and> (\<exists>rest. files (snd (snd (emit d2 r (h, fs)))) (baseFilename h) = Some (c @ sbuf st @ rest))
       \<and> (\<forall>p. last_segment p \<noteq> d2 @ ''.txt'' \<and> p \<noteq> baseFilename h
             \<longrightarrow> files (snd (snd (emit d2 r (h, fs)))) p = files fs p)
       \<and> files (snd (snd (emit d2 r (h, fs)))) (abspath fs (backup_name 1 d1))
           = files fs (abspath fs (backup_name 1 d1))"
proof -
  let ?bf = "baseFilename h"
  let ?P = "py_replace ?bf (last_segment ?bf) (d2 @ ''.txt'')"
  define h1 where
    "h1 = h\<lparr>stream := Some (st\<lparr>sbuf := []\<rparr>), current_date := d2, base_filename := ?P\<rparr>"
  define fs1 where "fs1 = fs\<lparr>files := (files fs)(?bf \<mapsto> c @ sbuf st)\<rparr>"
  have bf: "?bf = abspath fs (''system_logs_'' @ d1 @ ''.txt'')"
    using assms(6,7) by simp
  have bfi: "abspath fs ?bf = ?bf"
    unfolding assms(7) using assms(2) by (rule abspath_idem)
  have lbf: "last_segment ?bf = d1 @ ''.txt''"
    unfolding bf using assms(11) by (rule last_segment_base)
  have sr: "shouldRollover d2 r (h, fs) = (Returns True, h1, fs1)"
    using assms(3,4,5,8,9,10)
    by (simp add: shouldRollover_def stream_flush_def os_path_getsize_def bfi Let_def h1_def fs1_def
          abspath_files_update)
  obtain u where u: "?P = u @ CHR ''_'' # (d2 @ ''.txt'')"
    using new_base_filename [OF assms(11,12) bf] by blast
  have lP: "last_segment ?P = d2 @ ''.txt''"
    unfolding u using assms(12) by (intro last_segment_append) simp
  have g1: "denied fs1 = {}" "stream h1 = Some (st\<lparr>sbuf := []\<rparr>)"
    "spath (st\<lparr>sbuf := []\<rparr>) = baseFilename h1" "files fs1 (baseFilename h1) = Some (c @ sbuf st)"
    "current_date h1 = d2" "base_filename h1 = u @ CHR ''_'' # (d2 @ ''.txt'')"
    "baseFilename h1 = ?bf" "maxBytes h1 = maxBytes h"
    using assms(1,4) u by (simp_all add: h1_def fs1_def)
  have "cwd fs1 = cwd fs"
    by (simp add: fs1_def)
  then have "abspath fs1 ?bf = abspath fs ?bf"
    by (rule abspath_cwd)
  then have g2: "abspath fs1 (baseFilename h1) = baseFilename h1"
    using bfi g1(7) by simp
  have g3: "last_segment (baseFilename h1) \<noteq> d2 @ ''.txt''"
    using lbf assms(10) g1(7) by simp
  obtain fs3 where
    dr: "doRollover d2 (h1, fs1)
           = (Returns (), h1\<lparr>stream := Some \<lparr>spath = baseFilename h1, sbuf = []\<rparr>\<rparr>, fs3)"
    and c3: "cwd fs3 = cwd fs1" and b3: "files fs3 (baseFilename h1) = Some (c @ sbuf st)"
    and f3: "\<forall>p. last_segment p \<noteq> d2 @ ''.txt'' \<and> p \<noteq> baseFilename h1
                \<longrightarrow> files fs3 p = files fs1 p"
    using doRollover_other_date [OF g1(1,2,3) g2 g1(4,5) assms(12) g1(6) g3] by auto
  define h2 where "h2 = h1\<lparr>stream := Some \<lparr>spath = baseFilename h1, sbuf = []\<rparr>\<rparr>"
  have "abspath fs3 ?bf = abspath fs1 ?bf"
    using c3 by (rule abspath_cwd)
  then have a3: "abspath fs3 (baseFilename h2) = baseFilename h2"
    using g2 g1(7) by (simp add: h2_def)
  have k: "stream h2 = Some \<lparr>spath = baseFilename h1, sbuf = []\<rparr>"
    "spath \<lparr>spath = baseFilename h1, sbuf = []\<rparr> = baseFilename h2"
    "files fs3 (baseFilename h2) = Some (c @ sbuf st)"
    "int (length (c @ sbuf st) + length (sbuf \<lparr>spath = baseFilename h1, sbuf = []\<rparr>)) < maxBytes h2"
    "current_date h2 = d2" "baseFilename h2 = ?bf" "base_filename h2 = ?P"
    using b3 assms(9) g1(5,7,8) by (simp_all add: h2_def h1_def)
  obtain line h4 fs4 where
    be: "BaseRotatingHandler_emit d2 r (h2, fs3) = (Returns (), h4, fs4)"
    and c4: "current_date h4 = d2" and n4: "base_filename h4 = base_filename h2"
    and f4: "files fs4 = (files fs3)(baseFilename h2 \<mapsto>
               (c @ sbuf st) @ sbuf \<lparr>spath = baseFilename h1, sbuf = []\<rparr> @ line)"
    using inherited_emit_appends [OF k(1,2) a3 k(3,4,5), of r] by blast
  have em: "emit d2 r (h, fs) = (Returns (), h4, fs4)"
    by (simp add: emit_def sr dr be h2_def [symmetric])
  have fr: "\<And>p. last_segment p \<noteq> d2 @ ''.txt'' \<Longrightarrow> p \<noteq> ?bf \<Longrightarrow> files fs4 p = files fs p"
    using f3 g1(7) k(6) by (simp add: f4 fs1_def)
  have "abspath fs (backup_name 1 d1) \<noteq> ?bf"
    unfolding bf using base_not_backup [of fs d1 1] by simp
  moreover have "last_segment (abspath fs (backup_name 1 d1)) \<noteq> d2 @ ''.txt''"
    using last_segment_backup [OF assms(11), of fs 1] assms(10) by simp
  ultimately have b1: "files fs4 (abspath fs (backup_name 1 d1)) = files fs (abspath fs (backup_name 1 d1))"
    by (intro fr)
  have "files fs4 ?bf = Some (c @ sbuf st @ line)"
    using k(6) by (simp add: f4)
  then have "\<exists>rest. files fs4 ?bf = Some (c @ sbuf st @ rest)"
    by blast
  then show ?thesis
    using sr c4 n4 k(7) lP fr b1 by (simp add: em)
qed

text \<open>
  C1, as stated, fails. A handler is built on 2024-01-01 in an empty directory and writes
  one record; the next record arrives on 2024-01-02. After the second write there is no
  backup 1 under either date and no file named for the new date: the stream is open on
  the file of 2024-01-01, which holds both records.
\<close>

theorem date_change_counterexample:
  "handler_init ''2024-01-01'' ''system_logs.txt'' 1048576 3 fs_unlinked
     = (Returns (h_day1\<lparr>formatter := None\<rparr>),
        fs_unlinked\<lparr>files := [''/app/system_logs_2024-01-01.txt'' \<mapsto> []]\<rparr>)
   \<and> emit ''2024-01-01'' rec_hello
         (h_day1, fs_unlinked\<lparr>files := [''/app/system_logs_2024-01-01.txt'' \<mapsto> []]\<rparr>)
     = (Returns (), h_day1, fs_day1)
   \<and> fst (emit ''2024-01-02'' rec_next (h_day1, fs_day1)) = Returns ()
   \<and> files (snd (snd (emit ''2024-01-02'' rec_next (h_day1, fs_day1))))
         ''/app/system_logs_1_2024-01-01.txt'' = None
   \<and> files (snd (snd (emit ''2024-01-02'' rec_next (h_day1, fs_day1))))
         ''/app/system_logs_1_2024-01-02.txt'' = None
   \<and> files (snd (snd (emit ''2024-01-02'' rec_next (h_day1, fs_day1))))
         ''/app/system_logs_2024-01-02.txt'' = None
   \<and> stream (fst (snd (emit ''2024-01-02'' rec_next (h_day1, fs_day1))))
       = Some \<lparr>spath = ''/app/system_logs_2024-01-01.txt'', sbuf = []\<rparr>
   \<and> files (snd (snd (emit ''2024-01-02'' rec_next (h_day1, fs_day1))))
         ''/app/system_logs_2024-01-01.txt''
       = Some (std_format rec_hello @ [CHR 0x0A] @ std_format rec_next @ [CHR 0x0A])"
proof -
  have i: "handler_init ''2024-01-01'' ''system_logs.txt'' 1048576 3 fs_unlinked
             = (Returns (h_day1\<lparr>formatter := None\<rparr>),
                fs_unlinked\<lparr>files := [''/app/system_logs_2024-01-01.txt'' \<mapsto> []]\<rparr>)"
    by (simp add: handler_init_def handler_open_def open_append_def abspath_def py_replace_def
          fs_unlinked_def h_day1_def Let_def)
  have e1: "emit ''2024-01-01'' rec_hello
              (h_day1, fs_unlinked\<lparr>files := [''/app/system_logs_2024-01-01.txt'' \<mapsto> []]\<rparr>)
            = (Returns (), h_day1, fs_day1)"
    by (simp add: h_day1_def fs_day1_def fs_unlinked_def handler_defs Let_def)
  have e2: "emit ''2024-01-02'' rec_next (h_day1, fs_day1)
            = (Returns (),
               h_day1\<lparr>current_date := ''2024-01-02'',
                       base_filename := ''/app/system_logs_2024-01-02.txt''\<rparr>,
               fs_day1\<lparr>files := [''/app/system_logs_2024-01-01.txt'' \<mapsto>
                  std_format rec_hello @ [CHR 0x0A] @ std_format rec_next @ [CHR 0x0A]]\<rparr>)"
    by (simp add: h_day1_def fs_day1_def handler_defs py_replace_def last_segment_def
          str_nat_digits str_nat_Suc_0 Let_def upto.simps)
  show ?thesis
    unfolding e2 using i e1 by (simp add: h_day1_def fs_day1_def)
qed

text \<open>The same two writes as an instance of the amended statement.\<close>

theorem date_change_rotation_witness:
  "denied fs_day1 = {} \<and> is_absolute (cwd fs_day1)
   \<and> stream h_day1 = Some \<lparr>spath = ''/app/system_logs_2024-01-01.txt'', sbuf = []\<rparr>
   \<and> current_date h_day1 = ''2024-01-01''
   \<and> base_filename h_day1 = ''system_logs_'' @ ''2024-01-01'' @ ''.txt''
   \<and> baseFilename h_day1 = abspath fs_day1 (base_filename h_day1)
   \<and> files fs_day1 (baseFilename h_day1) = Some (std_format rec_hello @ [CHR 0x0A])
   \<and> int (length (std_format rec_hello @ [CHR 0x0A])) < maxBytes h_day1
   \<and> ''2024-01-02'' \<noteq> ''2024-01-01''
   \<and> CHR ''_'' \<notin> set ''2024-01-01'' \<and> CHR ''_'' \<notin> set ''2024-01-02''
   \<and> fst (shouldRollover ''2024-01-02'' rec_next (h_day1, fs_day1)) = Returns True
   \<and> fst (emit ''2024-01-02'' rec_next (h_day1, fs_day1)) = Returns ()
   \<and> current_date (fst (snd (emit ''2024-01-02'' rec_next (h_day1, fs_day1)))) = ''2024-01-02''
   \<and> last_segment (base_filename (fst (snd (emit ''2024-01-02'' rec_next (h_day1, fs_day1)))))
       = ''2024-01-02.txt''
   \<and> files (snd (snd (emit ''2024-01-02'' rec_next (h_day1, fs_day1))))
         (abspath fs_day1 (backup_name 1 ''2024-01-01'')) = None"
proof -
  let ?st = "\<lparr>spath = ''/app/system_logs_2024-01-01.txt'', sbuf = []\<rparr>"
  let ?c = "std_format rec_hello @ [CHR 0x0A]"
  have a: "denied fs_day1 = {}" "is_absolute (cwd fs_day1)"
    by (simp_all add: fs_day1_def is_absolute_def)
  have b: "stream h_day1 = Some ?st" "spath ?st = baseFilename h_day1"
    "current_date h_day1 = ''2024-01-01''"
    "base_filename h_day1 = ''system_logs_'' @ ''2024-01-01'' @ ''.txt''"
    by (simp_all add: h_day1_def)
  have c: "baseFilename h_day1 = abspath fs_day1 (base_filename h_day1)"
    by (simp add: h_day1_def abspath_def fs_day1_def)
  have f: "files fs_day1 (baseFilename h_day1) = Some ?c"
    by (simp add: fs_day1_def h_day1_def)
  have z: "int (length ?c + length (sbuf ?st)) < maxBytes h_day1"
    by (simp add: std_format_def rec_hello_def h_day1_def)
  have d: "''2024-01-02'' \<noteq> ''2024-01-01''" "CHR ''_'' \<notin> set ''2024-01-01''"
    "CHR ''_'' \<notin> set ''2024-01-02''"
    by simp_all
  have n: "files fs_day1 (abspath fs_day1 (backup_name 1 ''2024-01-01'')) = None"
    by (simp add: fs_day1_def abspath_def backup_name_def str_int_def str_nat_digits str_nat_Suc_0)
  note t = date_change_rotation [OF a b c f z d, of rec_next]
  have k: "files (snd (snd (emit ''2024-01-02'' rec_next (h_day1, fs_day1))))
             (abspath fs_day1 (backup_name 1 ''2024-01-01'')) = None"
    using t n by simp
  have "fst (shouldRollover ''2024-01-02'' rec_next (h_day1, fs_day1)) = Returns True"
    "fst (emit ''2024-01-02'' rec_next (h_day1, fs_day1)) = Returns ()"
    "current_date (fst (snd (emit ''2024-01-02'' rec_next (h_day1, fs_day1)))) = ''2024-01-02''"
    "last_segment (base_filename (fst (snd (emit ''2024-01-02'' rec_next (h_day1, fs_day1)))))
       = ''2024-01-02.txt''"
    using t by simp_all
  then show ?thesis
    using a b c f z d k by simp
qed

subsection \<open>The remote buffer\<close>

lemma logger_info_redis:
  "redis (snd (logger_info clk t w)) = redis w \<and> redis_fault (snd (logger_info clk t w)) = redis_fault w"
  by (simp add: logger_info_def split: prod.splits)

lemma list_range_all: "list_range xs 0 (- 1) = xs"
  by (cases xs) (simp_all add: list_range_def Let_def)

lemma list_range_last: "xs \<noteq> [] \<Longrightarrow> list_range xs (- 1000) (- 1) = last_n 1000 xs"
proof -
  assume "xs \<noteq> []"
  then have n: "0 < length xs" by simp
  have d: "nat (int (length xs) - 1000) = length xs - 1000" by simp
  show ?thesis
    using n by (auto simp: list_range_def last_n_def Let_def d)
qed

lemma push_trim_key:
  "push_trim now key m r key =
     (case live now key r of
        None \<Rightarrow> Some \<lparr>items = [m], expire_at = None\<rparr>
      | Some e \<Rightarrow> Some (e\<lparr>items := last_n 1000 (items e @ [m])\<rparr>))"
  by (auto simp: push_trim_def redis_ltrim_def redis_rpush_def live_def list_range_last last_n_def Let_def
           split: option.splits if_splits)

lemma push_trim_other: "k \<noteq> key \<Longrightarrow> push_trim now key m r k = r k"
  by (auto simp: push_trim_def redis_ltrim_def redis_rpush_def live_def Let_def
           split: option.splits if_splits)

lemma log_to_redis_redis:
  assumes "redis_fault w = None"
  shows "redis (snd (log_to_redis clk m source w)) =
           (let now = c_now clk; key = LOG_KEY @ ''_'' @ source; r1 = push_trim now key m (redis w)
            in if fst (log_to_redis clk m source w) = Returns () \<and> redis_ttl now key r1 = - 1
               then redis_expire now key 604800 r1 else r1)"
    and "redis_fault (snd (log_to_redis clk m source w)) = None"
  using assms logger_info_redis [of clk "''['' @ upper source @ ''] '' @ m"
      "w\<lparr>redis := push_trim (c_now clk) (LOG_KEY @ ''_'' @ source) m (redis w)\<rparr>"]
  by (auto simp: log_to_redis_def Let_def push_trim_def split: prod.splits outcome.splits)

lemma log_to_redis_outcome:
  "redis_fault w = None \<Longrightarrow>
   fst (log_to_redis clk m source w) =
   fst (logger_info clk (''['' @ upper source @ ''] '' @ m)
          (w\<lparr>redis := push_trim (c_now clk) (LOG_KEY @ ''_'' @ source) m (redis w)\<rparr>))"
  by (auto simp: log_to_redis_def Let_def push_trim_def split: prod.splits outcome.splits)

lemma logger_info_returns: "writer_ready w \<Longrightarrow> fst (logger_info clk t w) = Returns ()"
proof (cases "handlers w")
  case Nil
  then show ?thesis by (simp add: logger_info_def)
next
  case (Cons h hs)
  assume "writer_ready w"
  then have hs: "hs = []" and ok: "stream h \<noteq> None"
      "files (fsys w) (abspath (fsys w) (baseFilename h)) \<noteq> None" "denied (fsys w) = {}"
    using Cons by (simp_all add: writer_ready_def split: list.splits)
  let ?r = "\<lparr>asctime = c_asctime clk, levelname = ''INFO'', msg = t\<rparr>"
  have "fst (emit (c_date clk) ?r (h, fsys w)) = Returns ()"
    using ok by (rule emit_returns)
  then obtain s1 where "emit (c_date clk) ?r (h, fsys w) = (Returns (), s1)"
    by (cases "emit (c_date clk) ?r (h, fsys w)") simp
  then show ?thesis
    using Cons hs by (simp add: logger_info_def split: prod.splits)
qed

lemma log_to_redis_returns:
  assumes "redis_fault w = None" and "writer_ready w"
  shows "fst (log_to_redis clk m source w) = Returns ()"
proof -
  have "writer_ready (w\<lparr>redis := push_trim (c_now clk) (LOG_KEY @ ''_'' @ source) m (redis w)\<rparr>)"
    using assms(2) by (simp add: writer_ready_def split: list.splits)
  then show ?thesis
    unfolding log_to_redis_outcome [OF assms(1)] by (rule logger_info_returns)
qed

text \<open>
  C4, amended. With the store reachable: an append to a stream that has no expiry at that
  moment (the key is missing or persistent), when the call returns, leaves the stream
  with the expiry time \<open>now + 7 * 24 * 60 * 60\<close>; an append to a stream whose expiry \<open>t\<close>
  is still ahead leaves the expiry at \<open>t\<close>, whether it returns or not; and the call returns
  whenever the file writer can write (no handler, or one handler with its stream open,
  its active file present and no path refused).
\<close>

theorem ttl_set_once:
  assumes "redis_fault w = None"
  shows "(expiry (c_now clk) source w = None \<and> fst (log_to_redis clk m source w) = Returns ()
            \<longrightarrow> expiry (c_now clk) source (snd (log_to_redis clk m source w))
                  = Some (c_now clk + 7 * 24 * 60 * 60))
       \<and> (\<forall>t. expiry (c_now clk) source w = Some t
            \<longrightarrow> expiry (c_now clk) source (snd (log_to_redis clk m source w)) = Some t)
       \<and> (writer_ready w \<longrightarrow> fst (log_to_redis clk m source w) = Returns ())"
proof -
  have "(expiry (c_now clk) source w = None \<and> fst (log_to_redis clk m source w) = Returns ()
            \<longrightarrow> expiry (c_now clk) source (snd (log_to_redis clk m source w))
                  = Some (c_now clk + 7 * 24 * 60 * 60))
       \<and> (\<forall>t. expiry (c_now clk) source w = Some t
            \<longrightarrow> expiry (c_now clk) source (snd (log_to_redis clk m source w)) = Some t)"
    by (auto simp: expiry_def log_to_redis_redis [OF assms] Let_def push_trim_key redis_ttl_def
                   redis_expire_def live_def
             split: option.splits if_splits)
  then show ?thesis
    using log_to_redis_returns [OF assms] by blast
qed

text \<open>
  C4, as stated, fails. The log file of the one handler has been removed: the first append
  to the new stream \<open>sensor\<close> pushes the message, the file logging of line 108 raises
  \<open>FileNotFoundError\<close>, and lines 111-112 are not reached. The message is stored and read
  back, and the stream has no expiry.
\<close>

theorem ttl_not_set_counterexample:
  "redis_fault w_unlinked = None
   \<and> expiry 10 ''sensor'' w_unlinked = None
   \<and> fst (log_to_redis clk_demo ''up'' ''sensor'' w_unlinked)
       = Raises (FileNotFoundError ''/app/system_logs_2024-01-01.txt'')
   \<and> stored ''sensor'' (snd (log_to_redis clk_demo ''up'' ''sensor'' w_unlinked)) = [''up'']
   \<and> get_logs 10 [''type'' \<mapsto> ''sensor''] (snd (log_to_redis clk_demo ''up'' ''sensor'' w_unlinked))
       = (Logs [''up''], 200)
   \<and> expiry 10 ''sensor'' (snd (log_to_redis clk_demo ''up'' ''sensor'' w_unlinked)) = None"
proof -
  let ?w' = "snd (log_to_redis clk_demo ''up'' ''sensor'' w_unlinked)"
  have f: "redis_fault w_unlinked = None"
    by (simp add: w_unlinked_def w_demo_def)
  have n: "expiry 10 ''sensor'' w_unlinked = None"
    by (simp add: expiry_def live_def w_unlinked_def w_demo_def LOG_KEY_def)
  have "\<And>r t. fst (logger_info clk_demo t (w_unlinked\<lparr>redis := r\<rparr>))
                = Raises (FileNotFoundError ''/app/system_logs_2024-01-01.txt'')"
    by (simp add: logger_info_def w_unlinked_def w_demo_def h_buffered_def fs_unlinked_def clk_demo_def
          handler_defs Let_def)
  then have r: "fst (log_to_redis clk_demo ''up'' ''sensor'' w_unlinked)
                  = Raises (FileNotFoundError ''/app/system_logs_2024-01-01.txt'')"
    by (simp add: log_to_redis_outcome [OF f])
  have l: "live (c_now clk_demo) (LOG_KEY @ ''_'' @ ''sensor'') (redis w_unlinked) = None"
    by (simp add: live_def w_unlinked_def w_demo_def LOG_KEY_def)
  have k: "redis ?w' (LOG_KEY @ ''_'' @ ''sensor'') = Some \<lparr>items = [''up''], expire_at = None\<rparr>"
    using r l by (simp add: log_to_redis_redis(1) [OF f] Let_def push_trim_key)
  have f': "redis_fault ?w' = None"
    by (rule log_to_redis_redis(2) [OF f])
  have s: "stored ''sensor'' ?w' = [''up'']"
    using k by (simp add: stored_def)
  have e: "expiry 10 ''sensor'' ?w' = None"
    using k by (simp add: expiry_def live_def)
  have g: "get_logs 10 [''type'' \<mapsto> ''sensor''] ?w' = (Logs [''up''], 200)"
    using k f' by (simp add: get_logs_def redis_lrange_def live_def list_range_all fromkeys_def)
  show ?thesis
    using f n r s g e by simp
qed

text \<open>
  C5. With the store reachable, clearing a source and then appending \<open>m\<close> to it leaves a
  stream that a read within the seven days returns as \<open>[m]\<close>.
\<close>

theorem clear_then_append:
  assumes "redis_fault w = None" and "t < c_now clk + 7 * 24 * 60 * 60"
  shows "get_logs t [''type'' \<mapsto> source]
           (snd (log_to_redis clk m source (snd (clear_logs [''type'' \<mapsto> source] w))))
         = (Logs [m], 200)"
proof -
  let ?w1 = "snd (clear_logs [''type'' \<mapsto> source] w)"
  have f1: "redis_fault ?w1 = None" and r1: "redis ?w1 (LOG_KEY @ ''_'' @ source) = None"
    using assms(1) by (simp_all add: clear_logs_def redis_delete_def)
  have "redis_lrange t (LOG_KEY @ ''_'' @ source) 0 (- 1) (redis (snd (log_to_redis clk m source ?w1))) = [m]"
    using assms(2) r1
    by (auto simp: log_to_redis_redis [OF f1] Let_def push_trim_key redis_ttl_def redis_lrange_def
                   redis_expire_def live_def list_range_all last_n_def
             split: option.splits if_splits)
  then show ?thesis
    by (simp add: get_logs_def log_to_redis_redis(2) [OF f1] fromkeys_def)
qed

text \<open>
  A first append at second 10 sets the expiry to 604810; an hour later the expiry is the
  same, before and after a second append.
\<close>

theorem ttl_set_once_witness:
  "redis_fault w_demo = None
   \<and> expiry 10 ''sensor'' w_demo = None
   \<and> writer_ready w_demo
   \<and> fst (log_to_redis clk_demo ''up'' ''sensor'' w_demo) = Returns ()
   \<and> expiry 10 ''sensor'' (snd (log_to_redis clk_demo ''up'' ''sensor'' w_demo)) = Some 604810
   \<and> expiry 3610 ''sensor'' (snd (log_to_redis clk_demo ''up'' ''sensor'' w_demo)) = Some 604810
   \<and> expiry 3610 ''sensor''
        (snd (log_to_redis clk_later ''again'' ''sensor''
               (snd (log_to_redis clk_demo ''up'' ''sensor'' w_demo)))) = Some 604810"
proof -
  let ?w1 = "snd (log_to_redis clk_demo ''up'' ''sensor'' w_demo)"
  have f: "redis_fault w_demo = None"
    by (simp add: w_demo_def)
  have n: "expiry 10 ''sensor'' w_demo = None"
    by (simp add: expiry_def live_def w_demo_def LOG_KEY_def)
  have c: "c_now clk_demo = 10" "c_now clk_later = 3610"
    by (simp_all add: clk_demo_def clk_later_def)
  have y: "writer_ready w_demo"
    by (simp add: writer_ready_def w_demo_def h_buffered_def fs_buffered_def abspath_def)
  have r: "fst (log_to_redis clk_demo ''up'' ''sensor'' w_demo) = Returns ()"
    using ttl_set_once [OF f, of clk_demo "''sensor''" "''up''"] y by blast
  have a: "expiry 10 ''sensor'' ?w1 = Some 604810"
    using ttl_set_once [OF f, of clk_demo "''sensor''" "''up''"] n r c by simp
  then have b: "expiry 3610 ''sensor'' ?w1 = Some 604810"
    by (auto simp: expiry_def live_def split: option.splits if_splits)
  have f1: "redis_fault ?w1 = None"
    by (rule log_to_redis_redis(2) [OF f])
  have "expiry 3610 ''sensor'' (snd (log_to_redis clk_later ''again'' ''sensor'' ?w1)) = Some 604810"
    using ttl_set_once [OF f1, of clk_later "''sensor''" "''again''"] b c by simp
  then show ?thesis
    using f n y r a b by simp
qed

text \<open>The listener stream held three messages before the clear.\<close>

theorem clear_then_append_witness:
  "redis_fault w_demo = None \<and> (10::int) < c_now clk_demo + 7 * 24 * 60 * 60
   \<and> stored ''listener'' w_demo = [''a'', ''b'', ''a'']
   \<and> get_logs 10 [''type'' \<mapsto> ''listener'']
        (snd (log_to_redis clk_demo ''up'' ''listener''
               (snd (clear_logs [''type'' \<mapsto> ''listener''] w_demo))))
      = (Logs [''up''], 200)"
proof -
  have f: "redis_fault w_demo = None"
    by (simp add: w_demo_def)
  have t: "(10::int) < c_now clk_demo + 7 * 24 * 60 * 60"
    by (simp add: clk_demo_def)
  have s: "stored ''listener'' w_demo = [''a'', ''b'', ''a'']"
    by (simp add: stored_def w_demo_def LOG_KEY_def)
  show ?thesis
    using clear_then_append [OF f t, of "''listener''" "''up''"] f t s by simp
qed

lemma fromkeys_snoc:
  "fromkeys (xs @ [x]) = (if x \<in> set (fromkeys xs) then fromkeys xs else fromkeys xs @ [x])"
  by (simp add: fromkeys_def)

lemma fromkeys_Nil: "fromkeys [] = []"
  by (simp add: fromkeys_def)

lemma set_fromkeys: "set (fromkeys xs) = set xs"
  by (induction xs rule: rev_induct) (auto simp: fromkeys_snoc fromkeys_Nil)

lemma distinct_fromkeys: "distinct (fromkeys xs)"
  by (induction xs rule: rev_induct) (simp_all add: fromkeys_snoc fromkeys_Nil)

lemma length_fromkeys: "length (fromkeys xs) \<le> length xs"
  by (induction xs rule: rev_induct) (simp_all add: fromkeys_snoc fromkeys_Nil)

lemma first_occurrences_snoc:
  "first_occurrences (xs @ [x]) =
     (if x \<in> set xs then first_occurrences xs else first_occurrences xs @ [x])"
proof -
  have "filter (\<lambda>i. (xs @ [x]) ! i \<notin> set (take i (xs @ [x]))) [0..<length xs]
        = filter (\<lambda>i. xs ! i \<notin> set (take i xs)) [0..<length xs]"
    by (rule filter_cong) (auto simp: nth_append)
  moreover have "map (\<lambda>i. (xs @ [x]) ! i) (filter (\<lambda>i. xs ! i \<notin> set (take i xs)) [0..<length xs])
        = map (\<lambda>i. xs ! i) (filter (\<lambda>i. xs ! i \<notin> set (take i xs)) [0..<length xs])"
    by (rule map_cong) (auto simp: nth_append)
  ultimately show ?thesis
    by (simp add: first_occurrences_def)
qed

lemma fromkeys_first_occurrences: "fromkeys xs = first_occurrences xs"
proof (induction xs rule: rev_induct)
  case Nil
  show ?case by (simp add: fromkeys_Nil first_occurrences_def)
next
  case (snoc x xs)
  have "set (first_occurrences xs) = set xs"
    using set_fromkeys [of xs] snoc by simp
  then show ?case
    using snoc by (simp add: fromkeys_snoc first_occurrences_snoc)
qed

lemma length_last_n: "length (last_n k xs) = min k (length xs)"
  by (simp add: last_n_def)

lemma suffix_last_n: "suffix (last_n k xs) xs"
  by (simp add: last_n_def suffix_drop)

lemma last_n_mono: "suffix xs ys \<Longrightarrow> suffix (last_n k xs) (last_n k ys)"
proof -
  assume s: "suffix xs ys"
  have "suffix (last_n k xs) ys"
    using suffix_last_n s by (rule suffix_order.trans)
  moreover have "suffix (last_n k ys) ys"
    by (rule suffix_last_n)
  moreover have "length (last_n k xs) \<le> length (last_n k ys)"
    using suffix_length_le [OF s] by (simp add: length_last_n)
  ultimately show ?thesis
    by (rule suffix_length_suffix)
qed

lemma last_n_snoc_last_n: "last_n k (last_n k xs @ [m]) = last_n k (xs @ [m])"
  by (cases "length xs \<le> k") (auto simp: last_n_def Suc_diff_le)

lemma stored_step:
  assumes "redis_fault w = None"
  shows "stored source (snd (log_to_redis clk m source w)) =
           last_n 1000 ((case live (c_now clk) (LOG_KEY @ ''_'' @ source) (redis w) of
                           None \<Rightarrow> [] | Some e \<Rightarrow> items e) @ [m])"
  by (auto simp: stored_def log_to_redis_redis [OF assms] Let_def push_trim_key redis_expire_def
                 live_def last_n_def
           split: option.splits if_splits)

lemma live_items_suffix:
  "suffix (case live now (LOG_KEY @ ''_'' @ source) (redis w) of None \<Rightarrow> [] | Some e \<Rightarrow> items e)
          (stored source w)"
  by (auto simp: live_def stored_def split: option.splits)

lemma suffix_step:
  assumes "redis_fault w = None" and "suffix (stored source w) (last_n 1000 every)"
  shows "suffix (stored source (snd (log_to_redis clk m source w))) (last_n 1000 (every @ [m]))"
proof -
  let ?x = "case live (c_now clk) (LOG_KEY @ ''_'' @ source) (redis w) of None \<Rightarrow> [] | Some e \<Rightarrow> items e"
  have "suffix ?x every"
    using live_items_suffix assms(2) suffix_last_n
    by (meson suffix_order.trans)
  then have "suffix (?x @ [m]) (every @ [m])"
    by simp
  then show ?thesis
    unfolding stored_step [OF assms(1)] by (rule last_n_mono)
qed

lemma appends_fault: "redis_fault w = None \<Longrightarrow> redis_fault (appends source calls w) = None"
  by (induction calls arbitrary: w) (simp_all add: log_to_redis_redis(2))

lemma appends_suffix:
  "redis_fault w = None \<Longrightarrow> suffix (stored source w) (last_n 1000 every) \<Longrightarrow>
   suffix (stored source (appends source calls w)) (last_n 1000 (every @ map snd calls))"
proof (induction calls arbitrary: w every)
  case Nil
  then show ?case by simp
next
  case (Cons cm calls)
  have "suffix (stored source (appends source calls (snd (log_to_redis (fst cm) (snd cm) source w))))
          (last_n 1000 ((every @ [snd cm]) @ map snd calls))"
    using Cons.prems by (intro Cons.IH suffix_step log_to_redis_redis(2))
  then show ?case by simp
qed

lemma exact_step:
  assumes "redis_fault w = None" and "stored source w = last_n 1000 every"
    and "expires_not_before (T + 604800) source w"
    and "T \<le> c_now clk" and "c_now clk < T + 604800"
  shows "stored source (snd (log_to_redis clk m source w)) = last_n 1000 (every @ [m])
       \<and> expires_not_before (T + 604800) source (snd (log_to_redis clk m source w))"
proof -
  have "(case live (c_now clk) (LOG_KEY @ ''_'' @ source) (redis w) of None \<Rightarrow> [] | Some e \<Rightarrow> items e)
        = stored source w"
    using assms(3,5)
    by (auto simp: live_def stored_def expires_not_before_def split: option.splits)
  then have "stored source (snd (log_to_redis clk m source w)) = last_n 1000 (every @ [m])"
    by (simp add: stored_step [OF assms(1)] assms(2) last_n_snoc_last_n)
  moreover have "expires_not_before (T + 604800) source (snd (log_to_redis clk m source w))"
    using assms(3,4,5)
    by (auto simp: expires_not_before_def log_to_redis_redis [OF assms(1)] Let_def push_trim_key
                   redis_expire_def live_def
             split: option.splits if_splits)
  ultimately show ?thesis by simp
qed

lemma appends_exact:
  "redis_fault w = None \<Longrightarrow> stored source w = last_n 1000 every \<Longrightarrow>
   expires_not_before (T + 604800) source w \<Longrightarrow>
   \<forall>cm \<in> set calls. T \<le> c_now (fst cm) \<and> c_now (fst cm) < T + 604800 \<Longrightarrow>
   stored source (appends source calls w) = last_n 1000 (every @ map snd calls)
   \<and> expires_not_before (T + 604800) source (appends source calls w)"
proof (induction calls arbitrary: w every)
  case Nil
  then show ?case by simp
next
  case (Cons cm calls)
  let ?w1 = "snd (log_to_redis (fst cm) (snd cm) source w)"
  have s: "stored source ?w1 = last_n 1000 (every @ [snd cm])
           \<and> expires_not_before (T + 604800) source ?w1"
    using Cons.prems by (intro exact_step) simp_all
  have "stored source (appends source calls ?w1) = last_n 1000 ((every @ [snd cm]) @ map snd calls)
        \<and> expires_not_before (T + 604800) source (appends source calls ?w1)"
    using Cons.prems s by (intro Cons.IH log_to_redis_redis(2)) simp_all
  then show ?case by simp
qed

lemma lrange_all_stored:
  "redis_lrange t (LOG_KEY @ ''_'' @ source) 0 (- 1) (redis w) =
     (case live t (LOG_KEY @ ''_'' @ source) (redis w) of None \<Rightarrow> [] | Some e \<Rightarrow> items e)"
  by (simp add: redis_lrange_def list_range_all split: option.splits)

lemma lrange_unexpired:
  "expires_not_before d source w \<Longrightarrow> t < d \<Longrightarrow>
   redis_lrange t (LOG_KEY @ ''_'' @ source) 0 (- 1) (redis w) = stored source w"
  by (auto simp: redis_lrange_def list_range_all live_def stored_def expires_not_before_def
           split: option.splits)

text \<open>
  C3. Start from a reachable store in which the stream of \<open>source\<close> holds at most 1000
  messages, and run any sequence of appends to that source. A read then returns
  \<open>fromkeys kept\<close>, where \<open>kept\<close> is the list the store holds for the stream at the time of
  the read: at most 1000 entries; \<open>kept\<close> is a suffix of the last 1000 of all messages
  appended (in insertion order); every message of \<open>kept\<close> appears once, at the position of
  its first occurrence in \<open>kept\<close>. When no expiry falls within the run (every call and the
  read happen in a window of seven days that ends before any expiry already set), \<open>kept\<close>
  is exactly the last 1000 messages appended.
\<close>

theorem read_after_appends:
  assumes "redis_fault w = None" and "length (stored source w) \<le> 1000"
  shows "get_logs t [''type'' \<mapsto> source] (appends source calls w)
           = (Logs (fromkeys (redis_lrange t (LOG_KEY @ ''_'' @ source) 0 (- 1)
                                (redis (appends source calls w)))), 200)
       \<and> length (fromkeys (redis_lrange t (LOG_KEY @ ''_'' @ source) 0 (- 1)
                             (redis (appends source calls w)))) \<le> 1000
       \<and> suffix (redis_lrange t (LOG_KEY @ ''_'' @ source) 0 (- 1) (redis (appends source calls w)))
                (last_n 1000 (stored source w @ map snd calls))
       \<and> fromkeys (redis_lrange t (LOG_KEY @ ''_'' @ source) 0 (- 1) (redis (appends source calls w)))
           = first_occurrences (redis_lrange t (LOG_KEY @ ''_'' @ source) 0 (- 1)
                                  (redis (appends source calls w)))
       \<and> (expires_not_before (T + 604800) source w
            \<and> (\<forall>cm \<in> set calls. T \<le> c_now (fst cm) \<and> c_now (fst cm) < T + 604800)
            \<and> t < T + 604800
          \<longrightarrow> redis_lrange t (LOG_KEY @ ''_'' @ source) 0 (- 1) (redis (appends source calls w))
                = last_n 1000 (stored source w @ map snd calls))"
proof -
  let ?w' = "appends source calls w"
  let ?kept = "redis_lrange t (LOG_KEY @ ''_'' @ source) 0 (- 1) (redis ?w')"
  have f: "redis_fault ?w' = None"
    using assms(1) by (rule appends_fault)
  have s0: "stored source w = last_n 1000 (stored source w)"
    using assms(2) by (simp add: last_n_def)
  have g: "get_logs t [''type'' \<mapsto> source] ?w' = (Logs (fromkeys ?kept), 200)"
    by (simp add: get_logs_def f)
  have "suffix ?kept (stored source ?w')"
    unfolding lrange_all_stored by (rule live_items_suffix)
  moreover have "suffix (stored source ?w') (last_n 1000 (stored source w @ map snd calls))"
    using assms(1) by (rule appends_suffix) (simp add: s0 [symmetric])
  ultimately have sfx: "suffix ?kept (last_n 1000 (stored source w @ map snd calls))"
    by (rule suffix_order.trans)
  have "length ?kept \<le> 1000"
    using suffix_length_le [OF sfx] by (simp add: length_last_n)
  then have len: "length (fromkeys ?kept) \<le> 1000"
    using length_fromkeys [of ?kept] by linarith
  have ex: "?kept = last_n 1000 (stored source w @ map snd calls)"
    if h: "expires_not_before (T + 604800) source w
           \<and> (\<forall>cm \<in> set calls. T \<le> c_now (fst cm) \<and> c_now (fst cm) < T + 604800)
           \<and> t < T + 604800"
  proof -
    have e: "stored source ?w' = last_n 1000 (stored source w @ map snd calls)
             \<and> expires_not_before (T + 604800) source ?w'"
      using assms(1) s0 h by (intro appends_exact) simp_all
    then have "?kept = stored source ?w'"
      using h by (intro lrange_unexpired [of "T + 604800"]) simp_all
    with e show ?thesis by simp
  qed
  show ?thesis
    using g len sfx fromkeys_first_occurrences [of ?kept] ex by blast
qed

text \<open>Three appends to a new stream, the third repeating the first.\<close>

theorem read_after_appends_witness:
  "redis_fault w_demo = None \<and> length (stored ''sensor'' w_demo) \<le> 1000
   \<and> expires_not_before (10 + 604800) ''sensor'' w_demo
   \<and> map (c_now \<circ> fst) calls_demo = [10, 10, 3610]
   \<and> (3610::int) < 10 + 604800
   \<and> get_logs 3610 [''type'' \<mapsto> ''sensor''] (appends ''sensor'' calls_demo w_demo)
       = (Logs [''a'', ''b''], 200)"
proof -
  let ?kept = "redis_lrange 3610 (LOG_KEY @ ''_'' @ ''sensor'') 0 (- 1)
                 (redis (appends ''sensor'' calls_demo w_demo))"
  have f: "redis_fault w_demo = None"
    by (simp add: w_demo_def)
  have s: "stored ''sensor'' w_demo = []"
    by (simp add: stored_def w_demo_def LOG_KEY_def)
  then have l: "length (stored ''sensor'' w_demo) \<le> 1000"
    by simp
  have e: "expires_not_before (10 + 604800) ''sensor'' w_demo"
    by (simp add: expires_not_before_def w_demo_def LOG_KEY_def)
  have c: "\<forall>cm \<in> set calls_demo. 10 \<le> c_now (fst cm) \<and> c_now (fst cm) < 10 + 604800"
    by (simp add: calls_demo_def clk_demo_def clk_later_def)
  have m: "last_n 1000 (stored ''sensor'' w_demo @ map snd calls_demo) = [''a'', ''b'', ''a'']"
    by (simp add: s calls_demo_def last_n_def)
  note t = read_after_appends [OF f l, of 3610 calls_demo 10]
  have k: "?kept = [''a'', ''b'', ''a'']"
    using t e c m by simp
  have "fromkeys [''a'', ''b'', ''a''] = [''a'', ''b'']"
    by (simp add: fromkeys_def)
  then have "get_logs 3610 [''type'' \<mapsto> ''sensor''] (appends ''sensor'' calls_demo w_demo)
               = (Logs [''a'', ''b''], 200)"
    using t [THEN conjunct1] k by simp
  moreover have "map (c_now \<circ> fst) calls_demo = [10, 10, 3610]"
    by (simp add: calls_demo_def clk_demo_def clk_later_def)
  ultimately show ?thesis
    using f l e by simp
qed

end
